theory Spec2Isabelle
  imports Complex_Main "HOL-Library.AList"
begin

section \<open>Python exceptions and strings\<close>

text \<open>
  The exceptions of \<^verbatim>\<open>pyALGENCAN.py\<close> are values: the class of the exception and its
  message. \<open>ConfigurationError\<close> is the class the specification names; the source
  never constructs it. \<open>UnboundLocalError\<close>, \<open>IndexError\<close>, \<open>KeyError\<close> and
  \<open>AttributeError\<close> are raised by the language itself (a local read before it is
  bound, an index out of range, a missing key, a missing method); \<open>OSError\<close> comes from
  \<^verbatim>\<open>os.remove\<close> and \<^verbatim>\<open>os.rename\<close>.
\<close>

datatype exn_class =
    ValueError | IOError | NotImplementedError | ConfigurationError
  | UnboundLocalError | IndexError | KeyError | AttributeError | OSError

datatype py_exn = Exn exn_class string

fun exn_cls :: "py_exn \<Rightarrow> exn_class" where
  "exn_cls (Exn c m) = c"

fun exn_msg :: "py_exn \<Rightarrow> string" where
  "exn_msg (Exn c m) = m"

text \<open>
  Reading a local variable: \<open>None\<close> is a local that no assignment has reached yet, and
  reading it raises \<open>UnboundLocalError\<close> with the name of the variable.
\<close>

definition read_local :: "string \<Rightarrow> 'a option \<Rightarrow> py_exn + 'a" where
  "read_local nm v = (case v of None \<Rightarrow> Inl (Exn UnboundLocalError nm) | Some a \<Rightarrow> Inr a)"

text \<open>
  \<^verbatim>\<open>str.upper()\<close> and \<^verbatim>\<open>str.lower()\<close> on the one-byte characters of a HOL string:
  the letters a to z (codes 97 to 122) and A to Z (codes 65 to 90) are 32 apart, every
  other character stays.
\<close>

definition upper_char :: "char \<Rightarrow> char" where
  "upper_char c =
     (if 97 \<le> (of_char c :: nat) \<and> (of_char c :: nat) \<le> 122
      then char_of ((of_char c :: nat) - 32) else c)"

definition str_upper :: "string \<Rightarrow> string" where
  "str_upper s = map upper_char s"

definition lower_char :: "char \<Rightarrow> char" where
  "lower_char c =
     (if 65 \<le> (of_char c :: nat) \<and> (of_char c :: nat) \<le> 90
      then char_of ((of_char c :: nat) + 32) else c)"

definition str_lower :: "string \<Rightarrow> string" where
  "str_lower s = map lower_char s"

section \<open>The constructor\<close>

text \<open>
  \<^verbatim>\<open>ALGENCAN.__init__(self, pll_type=None, ...)\<close>, lines 58 to 74. The docstring types
  \<open>pll_type\<close> as \<open>STR\<close> or \<open>None\<close>, so it is a \<open>string option\<close>. The result is the
  \<open>poa\<close> attribute the constructor sets, or the exception it raises before anything else
  is set.
\<close>

definition ALGENCAN_init :: "string option \<Rightarrow> py_exn + bool" where
  "ALGENCAN_init pll_type =
     (case pll_type of
        None \<Rightarrow> Inr False
      | Some s \<Rightarrow>
          if str_upper s = ''POA'' then Inr True
          else Inl (Exn ValueError
                 (''pll_type must be either None or '' @ [CHR 0x27] @ ''POA'' @ [CHR 0x27])))"

section \<open>The problem and the set-up phase of \<open>__solve__\<close>\<close>

text \<open>
  The entities of the problem as \<^verbatim>\<open>__solve__\<close> reads them. The ordered dictionaries
  \<open>variables\<close>, \<open>constraints\<close>, \<open>objectives\<close> and \<open>vargroups\<close> are only ever
  walked in key order (\<^verbatim>\<open>for key in d.keys(): d[key]\<close>), so each is the list of its
  values in that order. Numbers are reals or complex numbers: the code copies and
  compares them, it does no arithmetic on them.
\<close>

record variable =
  v_name :: string
  v_type :: string
  v_lower :: real
  v_upper :: real
  v_value :: real

record constraint =
  c_name :: string
  c_type :: string

record vargroup =
  g_name :: string
  g_ids :: "nat list"

text \<open>
  A scalar the user model returns: a float; a numpy complex scalar that is an instance
  of \<^verbatim>\<open>complex\<close> (\<^verbatim>\<open>numpy.complex128\<close>) and has \<^verbatim>\<open>astype\<close>; a built-in \<^verbatim>\<open>complex\<close>,
  which is an instance of \<^verbatim>\<open>complex\<close> and has no \<^verbatim>\<open>astype\<close>; or a numpy complex scalar
  of another width (\<^verbatim>\<open>numpy.complex64\<close>, \<^verbatim>\<open>numpy.clongdouble\<close>), which has \<^verbatim>\<open>astype\<close>
  and is not an instance of \<^verbatim>\<open>complex\<close>. Floats are reals here: rounding is not modelled.
\<close>

datatype pynum = Float real | Complex128 complex | PyComplex complex | Complex64 complex

text \<open>
  What the user model is called with: the flat vector, or the dictionary of groups, each
  group a scalar or a slice.
\<close>

datatype gval = Scalar real | Slice "real list"

datatype xview = Flat "real list" | Grouped "(string \<times> gval) list"

type_synonym fc_vals = "pynum \<times> pynum list \<times> int"

record optimization =
  variables :: "variable list"
  constraints :: "constraint list"
  objectives :: "real list"
  use_groups :: bool
  vargroups :: "vargroup list"
  obj_fun :: "xview \<Rightarrow> py_exn + fc_vals"

text \<open>
  What \<^verbatim>\<open>self._setHistory\<close> leaves behind (lines 171 to 173): the flags \<open>sto_hst\<close> and
  \<open>h_start\<close> it sets on the optimizer, whether the log being written is a temporary
  one, and the name of the hot-start log.
\<close>

record history =
  hist_sto_hst :: bool
  hist_h_start :: bool
  hist_tmp_file :: bool
  hist_filename :: string

text \<open>Lines 142 to 167: the parallel mode. \<open>mpi_rank\<close> is \<open>None\<close> when the import of
  \<^verbatim>\<open>mpi4py\<close> fails (the code prints a message and goes on to read the local \<open>MPI\<close>,
  which is then unbound), and the rank \<^verbatim>\<open>comm.Get_rank()\<close> returns otherwise.\<close>

definition parallel_setup :: "bool \<Rightarrow> string \<Rightarrow> nat option \<Rightarrow> py_exn + (bool \<times> nat)" where
  "parallel_setup poa sens_mode mpi_rank =
     (if poa \<and> str_lower sens_mode = ''pgc'' then
        Inl (Exn NotImplementedError
          (''pyALGENCAN - Current implementation only allows single level parallelization, either ''
           @ [CHR 0x27] @ ''POA'' @ [CHR 0x27] @ '' or '' @ [CHR 0x27] @ ''pgc'' @ [CHR 0x27]))
      else if poa \<or> str_lower sens_mode = ''pgc'' then
        (case read_local ''MPI'' mpi_rank of
           Inl e \<Rightarrow> Inl e
         | Inr r \<Rightarrow> Inr (True, r))
      else Inr (False, 0))"

text \<open>Lines 522 to 534: the loop over the variables, with the three lists it appends to.\<close>

fun variables_loop ::
  "variable list \<Rightarrow> real list \<times> real list \<times> real list \<Rightarrow>
     py_exn + (real list \<times> real list \<times> real list)" where
  "variables_loop [] acc = Inr acc"
| "variables_loop (v # vs) (xl, xu, xx) =
     (if v_type v = ''c'' then
        variables_loop vs (xl @ [v_lower v], xu @ [v_upper v], xx @ [v_value v])
      else if v_type v = ''i'' then
        Inl (Exn IOError ''NLPQL cannot handle integer design variables'')
      else if v_type v = ''d'' then
        Inl (Exn IOError ''NLPQL cannot handle discrete design variables'')
      else variables_loop vs (xl, xu, xx))"

text \<open>Lines 540 to 548: the table of group boundaries. \<open>group_ids\<close> is a dictionary
  keyed by the group's name: an association list updated in place.\<close>

fun group_ids_loop ::
  "vargroup list \<Rightarrow> nat \<Rightarrow> (string \<times> nat \<times> nat) list \<Rightarrow> (string \<times> nat \<times> nat) list" where
  "group_ids_loop [] k group_ids = group_ids"
| "group_ids_loop (g # gs) k group_ids =
     (let group_len = length (g_ids g)
      in group_ids_loop gs (k + group_len)
           (AList.update (g_name g) (k, k + group_len) group_ids))"

text \<open>Lines 550 to 564: the constraints.\<close>

fun constraints_loop ::
  "constraint list \<Rightarrow> bool list \<times> bool list \<Rightarrow> bool list \<times> bool list" where
  "constraints_loop [] acc = acc"
| "constraints_loop (c # cs) (equatn, linear0) =
     constraints_loop cs
       (if c_type c = ''e'' then equatn @ [True]
        else if c_type c = ''i'' then equatn @ [False]
        else equatn,
        linear0 @ [False])"

record solver_args =
  s_pll :: bool
  s_myrank :: nat
  s_history :: history
  s_n :: nat
  s_xl :: "real list"
  s_xu :: "real list"
  s_xx :: "real list"
  s_group_ids :: "(string \<times> nat \<times> nat) list"
  s_m :: nat
  s_equatn :: "bool list"
  s_linear :: "bool list"

text \<open>
  Lines 142 to 567, everything \<^verbatim>\<open>__solve__\<close> does before it hands over to the solver.
  \<open>hist\<close> is the outcome of the two calls into other modules on the way
  (\<^verbatim>\<open>self._setHistory\<close> and \<^verbatim>\<open>Gradient(...)\<close>, lines 171 to 175): the exception one of
  them raised, or the history set-up.
\<close>

definition solve_setup ::
  "bool \<Rightarrow> string \<Rightarrow> nat option \<Rightarrow> py_exn + history \<Rightarrow> optimization \<Rightarrow> py_exn + solver_args" where
  "solve_setup poa sens_mode mpi_rank hist opt_problem =
     (case parallel_setup poa sens_mode mpi_rank of
        Inl e \<Rightarrow> Inl e
      | Inr (pll, myrank) \<Rightarrow>
     (case hist of
        Inl e \<Rightarrow> Inl e
      | Inr h \<Rightarrow>
     (case variables_loop (variables opt_problem) ([], [], []) of
        Inl e \<Rightarrow> Inl e
      | Inr (xl, xu, xx) \<Rightarrow>
          let group_ids = (if use_groups opt_problem
                           then group_ids_loop (vargroups opt_problem) 0 [] else []);
              m = length (constraints opt_problem)
          in if m > 0 then
               (case constraints_loop (constraints opt_problem) ([], []) of
                  (equatn, linear0) \<Rightarrow>
                    Inr \<lparr>s_pll = pll, s_myrank = myrank, s_history = h,
                         s_n = length (variables opt_problem),
                         s_xl = xl, s_xu = xu, s_xx = xx, s_group_ids = group_ids,
                         s_m = m, s_equatn = equatn, s_linear = linear0\<rparr>)
             else Inl (Exn IOError
                    ''ALGENCAN support for unconstrained problems not implemented yet''))))"

text \<open>
  \<^verbatim>\<open>__solve__\<close> as a whole: the set-up, then \<open>algencan\<close>, which stands for everything
  from line 569 on (the call of the solver, which is the only caller of the evaluation
  callbacks, and what follows it).
\<close>

definition ALGENCAN_solve ::
  "bool \<Rightarrow> string \<Rightarrow> nat option \<Rightarrow> py_exn + history \<Rightarrow> optimization \<Rightarrow>
     (solver_args \<Rightarrow> py_exn + 'r) \<Rightarrow> py_exn + 'r" where
  "ALGENCAN_solve poa sens_mode mpi_rank hist opt_problem algencan =
     (case solve_setup poa sens_mode mpi_rank hist opt_problem of
        Inl e \<Rightarrow> Inl e
      | Inr s \<Rightarrow> algencan s)"

section \<open>The state of a solve and its collaborators\<close>

text \<open>
  What the callbacks do to the world is kept as a list of events, oldest first: the
  flush of the output files, a read of the hot-start log and its closing, the
  broadcasts, the calls of the user model and of the gradient engine, and every write
  to the history log with the field name and the value written.
\<close>

datatype logval =
    LVec "real list" | LNum pynum | LNums "pynum list" | LInt int | LMat "real list list"

datatype event =
    Flush
  | HistRead "string list"
  | HistClose
  | BcastFlag bool
  | BcastVals
  | UserCall xview
  | GetGrad
  | LogWrite string logval

fun is_LogWrite :: "event \<Rightarrow> bool" where
  "is_LogWrite (LogWrite field v) = True"
| "is_LogWrite ev = False"

text \<open>
  The hot-start log \<open>hos_file\<close>: the records of objective, constraints and failure flag
  still to be read, and the records of the two gradient blocks still to be read, each
  block stored flat.
\<close>

record hos =
  hos_fc :: "fc_vals list"
  hos_grad :: "(real list \<times> real list) list"

text \<open>
  Modelled from the spec: \<open>HistoryStore.read\<close>, the method \<^verbatim>\<open>read\<close> of the class of
  \<open>hos_file\<close>, which is defined in another module. The read is sequential and in one
  direction; it returns the next record of the fields asked for, or reports the log
  exhausted (\<open>None\<close> here, \<^verbatim>\<open>hist_end\<close> in the callers) and stays so.
\<close>

definition hos_read_fc :: "hos \<Rightarrow> fc_vals option \<times> hos" where
  "hos_read_fc h =
     (case hos_fc h of [] \<Rightarrow> (None, h) | r # rs \<Rightarrow> (Some r, h\<lparr>hos_fc := rs\<rparr>))"

definition hos_read_grad :: "hos \<Rightarrow> (real list \<times> real list) option \<times> hos" where
  "hos_read_grad h =
     (case hos_grad h of [] \<Rightarrow> (None, h) | r # rs \<Rightarrow> (Some r, h\<lparr>hos_grad := rs\<rparr>))"

text \<open>
  The mutable part of a solve: the attribute \<^verbatim>\<open>self.h_start\<close>, the hot-start log and
  the events so far.
\<close>

record solver =
  h_start :: bool
  hos_file :: hos
  events :: "event list"

text \<open>The writes to the history log among the events of a solve, oldest first.\<close>

definition log_writes :: "solver \<Rightarrow> event list" where
  "log_writes s = filter is_LogWrite (events s)"

text \<open>
  The part of a solve that the callbacks only read: the rank of this process, the
  attributes \<^verbatim>\<open>self.pll\<close> and \<^verbatim>\<open>self.sto_hst\<close>, the table \<open>group_ids\<close> built at set-up,
  the method \<^verbatim>\<open>gradient.getGrad\<close> of the gradient engine (another module), and what
  rank 0 sends in the broadcasts of this call, which is what every other rank gets back
  from them.
\<close>

record env =
  myrank :: nat
  pll :: bool
  sto_hst :: bool
  group_ids :: "(string \<times> nat \<times> nat) list"
  getGrad :: "real list \<Rightarrow> (string \<times> nat \<times> nat) list \<Rightarrow> pynum list \<Rightarrow> pynum list \<Rightarrow>
                py_exn + (real list list \<times> real list list)"
  root_h_start :: bool
  root_fc :: fc_vals
  root_grad :: "real list list \<times> real list list"

text \<open>\<^verbatim>\<open>Bcast(value, root=0)\<close>: rank 0 gets its own value back, every other rank gets
  the value of rank 0.\<close>

definition Bcast :: "env \<Rightarrow> 'a \<Rightarrow> 'a \<Rightarrow> 'a" where
  "Bcast e own sent = (if myrank e = 0 then own else sent)"

definition emit :: "event \<Rightarrow> solver \<Rightarrow> solver" where
  "emit ev s = s\<lparr>events := events s @ [ev]\<rparr>"

definition bcast_h_start :: "env \<Rightarrow> solver \<Rightarrow> solver" where
  "bcast_h_start e s =
     (if pll e then
        (let b = Bcast e (h_start s) (root_h_start e)
         in emit (BcastFlag b) (s\<lparr>h_start := b\<rparr>))
      else s)"

section \<open>The callback \<open>evalfc\<close>\<close>

text \<open>
  Lines 388 to 398: the view of the design vector handed to the user model. The loop
  walks the keys of \<open>group_ids\<close> and looks each one up again; \<^verbatim>\<open>x[start]\<close> raises when
  \<open>start\<close> is past the end of \<open>x\<close>, a slice never raises.
\<close>

fun groups_loop ::
  "string list \<Rightarrow> (string \<times> nat \<times> nat) list \<Rightarrow> real list \<Rightarrow> (string \<times> gval) list \<Rightarrow>
     py_exn + (string \<times> gval) list" where
  "groups_loop [] gids x xg = Inr xg"
| "groups_loop (grp # grps) gids x xg =
     (case map_of gids grp of
        None \<Rightarrow> Inl (Exn KeyError grp)
      | Some (start, stop) \<Rightarrow>
          if int stop - int start = 1 then
            (if start < length x
             then groups_loop grps gids x (AList.update grp (Scalar (x ! start)) xg)
             else Inl (Exn IndexError ''index out of bounds''))
          else groups_loop grps gids x
                 (AList.update grp (Slice (take (stop - start) (drop start x))) xg))"

definition groups_view :: "bool \<Rightarrow> (string \<times> nat \<times> nat) list \<Rightarrow> real list \<Rightarrow> py_exn + xview" where
  "groups_view ug gids x =
     (if ug then
        (case groups_loop (map fst gids) gids x [] of
           Inl e \<Rightarrow> Inl e
         | Inr xg \<Rightarrow> Inr (Grouped xg))
      else Inr (Flat x))"

text \<open>
  Lines 404 to 416: on rank 0, in hot-start mode, the next record of the log. The locals
  \<open>ff\<close> and \<open>gg\<close> are bound by the record; its failure flag goes to the local \<open>flag\<close>,
  which is returned here and read by nothing afterwards.
\<close>

definition evalfc_read :: "env \<Rightarrow> solver \<Rightarrow> solver \<times> pynum option \<times> pynum list option \<times> int" where
  "evalfc_read e s =
     (if myrank e = 0 then
        if h_start s then
          (case hos_read_fc (hos_file s) of
             (None, h) \<Rightarrow>
               (emit HistClose
                  (emit (HistRead [''obj'', ''con'', ''fail'']) (s\<lparr>hos_file := h\<rparr>))
                  \<lparr>h_start := False\<rparr>,
                None, None, 0)
           | (Some (obj, con, fl), h) \<Rightarrow>
               (emit (HistRead [''obj'', ''con'', ''fail'']) (s\<lparr>hos_file := h\<rparr>),
                Some obj, Some con, fl))
        else (s, None, None, 0)
      else (s, None, None, 0))"

text \<open>
  Lines 418 to 424: the broadcast of \<open>h_start\<close>, then either the broadcast of the
  replayed values or the call of the user model. The argument list \<^verbatim>\<open>[ff,gg,fail]\<close> of
  the second broadcast is built before the broadcast is called, so its three locals are
  read first.
\<close>

definition evalfc_values ::
  "env \<Rightarrow> optimization \<Rightarrow> xview \<Rightarrow> pynum option \<times> pynum list option \<times> int option \<Rightarrow> solver \<Rightarrow>
     solver \<times> (py_exn + (pynum option \<times> pynum list option \<times> int option))" where
  "evalfc_values e opt_problem xn loc s =
     (case loc of (ff, gg, fail) \<Rightarrow>
        let s1 = bcast_h_start e s in
        if h_start s1 \<and> pll e then
          (case read_local ''ff'' ff of Inl ex \<Rightarrow> (s1, Inl ex) | Inr a \<Rightarrow>
          (case read_local ''gg'' gg of Inl ex \<Rightarrow> (s1, Inl ex) | Inr b \<Rightarrow>
          (case read_local ''fail'' fail of Inl ex \<Rightarrow> (s1, Inl ex) | Inr c \<Rightarrow>
          (case Bcast e (a, b, c) (root_fc e) of
             (a', b', c') \<Rightarrow> (emit BcastVals s1, Inr (Some a', Some b', Some c'))))))
        else if \<not> h_start s1 then
          (case obj_fun opt_problem xn of
             Inl ex \<Rightarrow> (emit (UserCall xn) s1, Inl ex)
           | Inr (a, b, c) \<Rightarrow> (emit (UserCall xn) s1, Inr (Some a, Some b, Some c)))
        else (s1, Inr (ff, gg, fail)))"

text \<open>Lines 426 to 432: the four writes to the history log.\<close>

definition evalfc_store ::
  "env \<Rightarrow> real list \<Rightarrow> pynum option \<times> pynum list option \<times> int option \<Rightarrow> solver \<Rightarrow>
     solver \<times> (py_exn + unit)" where
  "evalfc_store e x loc s =
     (case loc of (ff, gg, fail) \<Rightarrow>
        if myrank e = 0 then
          if sto_hst e then
            (let s1 = emit (LogWrite ''x'' (LVec x)) s in
             case read_local ''ff'' ff of Inl ex \<Rightarrow> (s1, Inl ex) | Inr a \<Rightarrow>
            (let s2 = emit (LogWrite ''obj'' (LNum a)) s1 in
             case read_local ''gg'' gg of Inl ex \<Rightarrow> (s2, Inl ex) | Inr b \<Rightarrow>
            (let s3 = emit (LogWrite ''con'' (LNums b)) s2 in
             case read_local ''fail'' fail of Inl ex \<Rightarrow> (s3, Inl ex) | Inr c \<Rightarrow>
               (emit (LogWrite ''fail'' (LInt c)) s3, Inr ()))))
          else (s, Inr ())
        else (s, Inr ()))"

text \<open>
  Lines 434 to 445: \<^verbatim>\<open>isinstance(v, complex)\<close> and \<^verbatim>\<open>v.astype(float)\<close>, which keeps the
  real part of a numpy complex scalar and does not exist on a built-in complex (a
  numpy complex scalar of another width than \<^verbatim>\<open>complex128\<close> is not an instance of
  \<^verbatim>\<open>complex\<close>, so \<^verbatim>\<open>astype\<close> is not reached for it); then
  the loop over the constraints, which reads \<^verbatim>\<open>gg[i]\<close> before it stores into \<^verbatim>\<open>g[i]\<close>.
\<close>

fun isinstance_complex :: "pynum \<Rightarrow> bool" where
  "isinstance_complex (Float r) = False"
| "isinstance_complex (Complex128 z) = True"
| "isinstance_complex (PyComplex z) = True"
| "isinstance_complex (Complex64 z) = False"

fun astype_float :: "pynum \<Rightarrow> py_exn + pynum" where
  "astype_float (Float r) = Inr (Float r)"
| "astype_float (Complex128 z) = Inr (Float (Re z))"
| "astype_float (PyComplex z) =
     Inl (Exn AttributeError
            ([CHR 0x27] @ ''complex'' @ [CHR 0x27] @ '' object has no attribute ''
             @ [CHR 0x27] @ ''astype'' @ [CHR 0x27]))"
| "astype_float (Complex64 z) = Inr (Float (Re z))"


definition assign_real :: "pynum \<Rightarrow> py_exn + pynum" where
  "assign_real v = (if isinstance_complex v then astype_float v else Inr v)"

fun constraints_assign ::
  "nat list \<Rightarrow> pynum list option \<Rightarrow> pynum list \<Rightarrow> py_exn + pynum list" where
  "constraints_assign [] gg g = Inr g"
| "constraints_assign (i # is) gg g =
     (case read_local ''gg'' gg of Inl ex \<Rightarrow> Inl ex | Inr b \<Rightarrow>
        if i < length b then
          (case assign_real (b ! i) of
             Inl ex \<Rightarrow> Inl ex
           | Inr v \<Rightarrow>
               if i < length g then constraints_assign is gg (g[i := v])
               else Inl (Exn IndexError ''index out of bounds''))
        else Inl (Exn IndexError ''list index out of range''))"

definition evalfc_assign ::
  "optimization \<Rightarrow> pynum option \<times> pynum list option \<times> int option \<Rightarrow> pynum list \<Rightarrow>
     py_exn + (pynum \<times> pynum list \<times> int)" where
  "evalfc_assign opt_problem loc g =
     (case loc of (ff, gg, fail) \<Rightarrow>
       (case read_local ''ff'' ff of Inl ex \<Rightarrow> Inl ex | Inr a \<Rightarrow>
       (case assign_real a of Inl ex \<Rightarrow> Inl ex | Inr f \<Rightarrow>
       (case constraints_assign [0..<length (constraints opt_problem)] gg g of
          Inl ex \<Rightarrow> Inl ex
        | Inr g' \<Rightarrow>
       (case read_local ''fail'' fail of Inl ex \<Rightarrow> Inl ex | Inr c \<Rightarrow>
          Inr (f, g', c))))))"

text \<open>
  \<^verbatim>\<open>evalfc(n, x, f, m, g, flag)\<close>, lines 372 to 447. The result is what the callback
  returns, \<open>(f, g, fail)\<close>, or the exception that ends it; the state is returned in
  both cases.
\<close>

definition evalfc ::
  "env \<Rightarrow> optimization \<Rightarrow> nat \<Rightarrow> real list \<Rightarrow> pynum \<Rightarrow> nat \<Rightarrow> pynum list \<Rightarrow> int \<Rightarrow> solver \<Rightarrow>
     solver \<times> (py_exn + (pynum \<times> pynum list \<times> int))" where
  "evalfc e opt_problem n x f m g flag s =
     (case groups_view (use_groups opt_problem) (group_ids e) x of
        Inl ex \<Rightarrow> (s, Inl ex)
      | Inr xn \<Rightarrow>
     (case evalfc_read e (emit Flush s) of
        (s1, ff, gg, flag') \<Rightarrow>
     (case evalfc_values e opt_problem xn (ff, gg, None) s1 of
        (s2, Inl ex) \<Rightarrow> (s2, Inl ex)
      | (s2, Inr loc) \<Rightarrow>
     (case evalfc_store e x loc s2 of
        (s3, Inl ex) \<Rightarrow> (s3, Inl ex)
      | (s3, Inr u) \<Rightarrow> (s3, evalfc_assign opt_problem loc g)))))"

section \<open>The callback \<open>evalgjac\<close>\<close>

text \<open>\<^verbatim>\<open>a.reshape((rows, cols))\<close> of a flat array: the rows in order, or a \<open>ValueError\<close>
  when the sizes do not agree.\<close>

definition reshape :: "nat \<Rightarrow> nat \<Rightarrow> real list \<Rightarrow> py_exn + real list list" where
  "reshape rows cols v =
     (if length v = rows * cols
      then Inr (map (\<lambda>r. take cols (drop (r * cols) v)) [0..<rows])
      else Inl (Exn ValueError ''cannot reshape array''))"

text \<open>
  Lines 471 to 490: in hot-start mode, the next gradient record on rank 0, the broadcast
  of \<open>h_start\<close> and the broadcast of the two blocks, whose argument list \<^verbatim>\<open>[dff,dgg]\<close>
  is built first.
\<close>

definition evalgjac_read ::
  "env \<Rightarrow> optimization \<Rightarrow> solver \<Rightarrow>
     solver \<times> (py_exn + (real list list option \<times> real list list option))" where
  "evalgjac_read e opt_problem s =
     (if h_start s then
        (case
           (if myrank e = 0 then
              (case hos_read_grad (hos_file s) of
                 (None, h) \<Rightarrow>
                   (emit HistClose
                      (emit (HistRead [''grad_obj'', ''grad_con'']) (s\<lparr>hos_file := h\<rparr>))
                      \<lparr>h_start := False\<rparr>,
                    Inr (None, None))
               | (Some (grad_obj, grad_con), h) \<Rightarrow>
                   (let s' = emit (HistRead [''grad_obj'', ''grad_con'']) (s\<lparr>hos_file := h\<rparr>) in
                    case reshape (length (objectives opt_problem))
                           (length (variables opt_problem)) grad_obj of
                      Inl ex \<Rightarrow> (s', Inl ex)
                    | Inr dff \<Rightarrow>
                   (case reshape (length (constraints opt_problem))
                           (length (variables opt_problem)) grad_con of
                      Inl ex \<Rightarrow> (s', Inl ex)
                    | Inr dgg \<Rightarrow> (s', Inr (Some dff, Some dgg)))))
            else (s, Inr (None, None)))
         of
           (s1, Inl ex) \<Rightarrow> (s1, Inl ex)
         | (s1, Inr (dff, dgg)) \<Rightarrow>
             let s2 = bcast_h_start e s1 in
             if h_start s2 \<and> pll e then
               (case read_local ''dff'' dff of Inl ex \<Rightarrow> (s2, Inl ex) | Inr a \<Rightarrow>
               (case read_local ''dgg'' dgg of Inl ex \<Rightarrow> (s2, Inl ex) | Inr b \<Rightarrow>
               (case Bcast e (a, b) (root_grad e) of
                  (a', b') \<Rightarrow> (emit BcastVals s2, Inr (Some a', Some b')))))
             else (s2, Inr (dff, dgg)))
      else (s, Inr (None, None)))"

text \<open>Lines 492 to 499: the live evaluation, which hands the flat vector to the user
  model and then asks the gradient engine.\<close>

definition evalgjac_live ::
  "env \<Rightarrow> optimization \<Rightarrow> real list \<Rightarrow> real list list option \<times> real list list option \<Rightarrow> solver \<Rightarrow>
     solver \<times> (py_exn + (real list list option \<times> real list list option \<times> int option))" where
  "evalgjac_live e opt_problem x loc s =
     (case loc of (dff, dgg) \<Rightarrow>
        if \<not> h_start s then
          (case obj_fun opt_problem (Flat x) of
             Inl ex \<Rightarrow> (emit (UserCall (Flat x)) s, Inl ex)
           | Inr (ff, gg, fl) \<Rightarrow>
               (let s1 = emit GetGrad (emit (UserCall (Flat x)) s) in
                case getGrad e x (group_ids e) [ff] gg of
                  Inl ex \<Rightarrow> (s1, Inl ex)
                | Inr (a, b) \<Rightarrow> (s1, Inr (Some a, Some b, Some fl))))
        else (s, Inr (dff, dgg, None)))"

text \<open>Lines 501 to 504: the two writes to the history log.\<close>

definition evalgjac_store ::
  "env \<Rightarrow> real list list option \<times> real list list option \<times> int option \<Rightarrow> solver \<Rightarrow>
     solver \<times> (py_exn + unit)" where
  "evalgjac_store e loc s =
     (case loc of (dff, dgg, fail) \<Rightarrow>
        if sto_hst e \<and> myrank e = 0 then
          (case read_local ''dff'' dff of Inl ex \<Rightarrow> (s, Inl ex) | Inr a \<Rightarrow>
          (let s1 = emit (LogWrite ''grad_obj'' (LMat a)) s in
           case read_local ''dgg'' dgg of Inl ex \<Rightarrow> (s1, Inl ex) | Inr b \<Rightarrow>
             (emit (LogWrite ''grad_con'' (LMat b)) s1, Inr ())))
        else (s, Inr ()))"

text \<open>
  Lines 506 to 508: \<^verbatim>\<open>jfval[i] = dff[0, i]\<close> for every variable. Lines 510 to 517: the
  two nested loops over the constraints \<open>jj\<close> and the variables \<open>ii\<close>, with the counter
  \<open>jcnnz\<close>. A read or a store past the end of an array raises \<open>IndexError\<close>; the right
  hand side \<^verbatim>\<open>dgg[jj, ii]\<close> is read before the store into \<open>jcval\<close>.
\<close>

fun jfval_assign ::
  "nat list \<Rightarrow> real list list option \<Rightarrow> real list \<Rightarrow> py_exn + real list" where
  "jfval_assign [] dff jfval = Inr jfval"
| "jfval_assign (i # is) dff jfval =
     (case read_local ''dff'' dff of Inl ex \<Rightarrow> Inl ex | Inr d \<Rightarrow>
        if 0 < length d \<and> i < length (d ! 0) then
          (if i < length jfval then jfval_assign is dff (jfval[i := d ! 0 ! i])
           else Inl (Exn IndexError ''index out of bounds''))
        else Inl (Exn IndexError ''index out of bounds''))"

fun jac_inner ::
  "nat \<Rightarrow> nat list \<Rightarrow> real list list option \<Rightarrow> int list \<times> int list \<times> real list \<times> nat \<Rightarrow>
     py_exn + (int list \<times> int list \<times> real list \<times> nat)" where
  "jac_inner jj [] dgg st = Inr st"
| "jac_inner jj (ii # iis) dgg (jcfun, jcvar, jcval, jcnnz) =
     (if jcnnz < length jcfun then
        if jcnnz < length jcvar then
          (case read_local ''dgg'' dgg of Inl ex \<Rightarrow> Inl ex | Inr d \<Rightarrow>
             if jj < length d \<and> ii < length (d ! jj) then
               (if jcnnz < length jcval then
                  jac_inner jj iis dgg
                    (jcfun[jcnnz := int jj + 1], jcvar[jcnnz := int ii + 1],
                     jcval[jcnnz := d ! jj ! ii], jcnnz + 1)
                else Inl (Exn IndexError ''index out of bounds''))
             else Inl (Exn IndexError ''index out of bounds''))
        else Inl (Exn IndexError ''index out of bounds'')
      else Inl (Exn IndexError ''index out of bounds''))"

fun jac_outer ::
  "nat list \<Rightarrow> nat list \<Rightarrow> real list list option \<Rightarrow> int list \<times> int list \<times> real list \<times> nat \<Rightarrow>
     py_exn + (int list \<times> int list \<times> real list \<times> nat)" where
  "jac_outer [] iis dgg st = Inr st"
| "jac_outer (jj # jjs) iis dgg st =
     (case jac_inner jj iis dgg st of
        Inl ex \<Rightarrow> Inl ex
      | Inr st' \<Rightarrow> jac_outer jjs iis dgg st')"

definition evalgjac_assign ::
  "optimization \<Rightarrow> real list list option \<times> real list list option \<times> int option \<Rightarrow>
     real list \<Rightarrow> int list \<Rightarrow> int list \<Rightarrow> real list \<Rightarrow>
     py_exn + (real list \<times> int list \<times> int list \<times> real list \<times> nat \<times> int)" where
  "evalgjac_assign opt_problem loc jfval jcfun jcvar jcval =
     (case loc of (dff, dgg, fail) \<Rightarrow>
       (case jfval_assign [0..<length (variables opt_problem)] dff jfval of
          Inl ex \<Rightarrow> Inl ex
        | Inr jfval' \<Rightarrow>
       (case jac_outer [0..<length (constraints opt_problem)]
               [0..<length (variables opt_problem)] dgg (jcfun, jcvar, jcval, 0) of
          Inl ex \<Rightarrow> Inl ex
        | Inr (jcfun', jcvar', jcval', jcnnz) \<Rightarrow>
       (case read_local ''fail'' fail of
          Inl ex \<Rightarrow> Inl ex
        | Inr c \<Rightarrow> Inr (jfval', jcfun', jcvar', jcval', jcnnz, c)))))"

text \<open>
  \<^verbatim>\<open>evalgjac(n, x, jfval, m, jcfun, jcvar, jcval, jcnnz, flag)\<close>, lines 452 to 519. The
  result is what the callback returns,
  \<open>(jfval, jcfun, jcvar, jcval, jcnnz, fail)\<close>, or the exception that ends it.
\<close>

definition evalgjac ::
  "env \<Rightarrow> optimization \<Rightarrow> nat \<Rightarrow> real list \<Rightarrow> real list \<Rightarrow> nat \<Rightarrow> int list \<Rightarrow> int list \<Rightarrow>
     real list \<Rightarrow> nat \<Rightarrow> int \<Rightarrow> solver \<Rightarrow>
     solver \<times> (py_exn + (real list \<times> int list \<times> int list \<times> real list \<times> nat \<times> int))" where
  "evalgjac e opt_problem n x jfval m jcfun jcvar jcval jcnnz flag s =
     (case evalgjac_read e opt_problem s of
        (s1, Inl ex) \<Rightarrow> (s1, Inl ex)
      | (s1, Inr loc) \<Rightarrow>
     (case evalgjac_live e opt_problem x loc s1 of
        (s2, Inl ex) \<Rightarrow> (s2, Inl ex)
      | (s2, Inr loc') \<Rightarrow>
     (case evalgjac_store e loc' s2 of
        (s3, Inl ex) \<Rightarrow> (s3, Inl ex)
      | (s3, Inr u) \<Rightarrow>
          (s3, evalgjac_assign opt_problem loc' jfval jcfun jcvar jcval))))"

section \<open>The promotion of the temporary log\<close>

text \<open>
  Lines 645 to 654. The file system is a map from path to content; \<^verbatim>\<open>os.remove\<close>
  raises when the file is missing, \<^verbatim>\<open>os.rename\<close> raises when the source is missing
  and otherwise moves the content to the target name.
\<close>

type_synonym fs = "string \<rightharpoonup> string"

datatype fs_op = Remove string | Rename string string

fun fs_step :: "fs_op \<Rightarrow> fs \<Rightarrow> py_exn + fs" where
  "fs_step (Remove p) files =
     (case files p of
        None \<Rightarrow> Inl (Exn OSError p)
      | Some c \<Rightarrow> Inr (files(p := None)))"
| "fs_step (Rename src dst) files =
     (case files src of
        None \<Rightarrow> Inl (Exn OSError src)
      | Some c \<Rightarrow> Inr ((files(src := None))(dst \<mapsto> c)))"

fun fs_run :: "fs_op list \<Rightarrow> fs \<Rightarrow> py_exn + fs" where
  "fs_run [] files = Inr files"
| "fs_run (op # ops) files =
     (case fs_step op files of
        Inl ex \<Rightarrow> Inl ex
      | Inr files' \<Rightarrow> fs_run ops files')"

text \<open>The four calls of lines 651 to 654, in order, for the log named \<open>name\<close>.\<close>

definition promote_ops :: "string \<Rightarrow> fs_op list" where
  "promote_ops name =
     [Remove (name @ ''.cue''),
      Remove (name @ ''.bin''),
      Rename (name @ ''_tmp.cue'') (name @ ''.cue''),
      Rename (name @ ''_tmp.bin'') (name @ ''.bin'')]"

text \<open>
  The whole block: only rank 0 with recording on touches the files, and only when the
  log written was a temporary one. Closing the two logs does not change the files.
\<close>

definition finalize :: "nat \<Rightarrow> bool \<Rightarrow> bool \<Rightarrow> string \<Rightarrow> fs \<Rightarrow> py_exn + fs" where
  "finalize rank sto tmp_file name files =
     (if rank = 0 then
        if sto then
          if tmp_file then fs_run (promote_ops name) files
          else Inr files
        else Inr files
      else Inr files)"

section \<open>The example problem\<close>

text \<open>
  \<^verbatim>\<open>examples/rosenbrock.py\<close>: the objective function of the script (it returns no
  constraints and the failure flag 0; reading \<^verbatim>\<open>x[0]\<close> or \<^verbatim>\<open>x[1]\<close> of a shorter vector
  raises, and so does indexing a dictionary of groups by 1, which is read first), and the problem the
  script builds: two continuous variables between -10 and 10 starting at (-3, -4), one
  objective, no constraints, no groups.
\<close>

fun objfunc :: "xview \<Rightarrow> py_exn + fc_vals" where
  "objfunc (Flat x) =
     (if 1 < length x
      then Inr (Float (100 * (x ! 1 - (x ! 0)\<^sup>2)\<^sup>2 + (1 - x ! 0)\<^sup>2), [], 0)
      else Inl (Exn IndexError ''index out of range''))"
| "objfunc (Grouped xg) = Inl (Exn KeyError ''1'')"

definition opt_prob :: optimization where
  "opt_prob =
     \<lparr>variables =
        [\<lparr>v_name = ''x1'', v_type = ''c'', v_lower = -10, v_upper = 10, v_value = -3\<rparr>,
         \<lparr>v_name = ''x2'', v_type = ''c'', v_lower = -10, v_upper = 10, v_value = -4\<rparr>],
      constraints = [],
      objectives = [0],
      use_groups = False,
      vargroups = [],
      obj_fun = objfunc\<rparr>"

text \<open>A run that neither records nor hot-starts (\<^verbatim>\<open>store_hst=False, hot_start=False\<close>).\<close>

definition no_history :: history where
  "no_history =
     \<lparr>hist_sto_hst = False, hist_h_start = False, hist_tmp_file = False,
      hist_filename = ''ALGENCAN''\<rparr>"

text \<open>
  A constrained variant for the callbacks: the same two variables, one inequality
  constraint, and a user model that returns numpy complex scalars, as a model run under
  the complex-step method does.
\<close>

definition complex_model :: "xview \<Rightarrow> py_exn + fc_vals" where
  "complex_model xn = Inr (Complex128 (Complex 1 2), [Complex128 (Complex 3 4)], 0)"

definition con_prob :: optimization where
  "con_prob =
     opt_prob\<lparr>constraints := [\<lparr>c_name = ''g1'', c_type = ''i''\<rparr>],
              obj_fun := complex_model\<rparr>"

text \<open>The same with single-precision complex scalars, which are not instances of
  \<^verbatim>\<open>complex\<close>.\<close>

definition complex64_model :: "xview \<Rightarrow> py_exn + fc_vals" where
  "complex64_model xn = Inr (Complex64 (Complex 1 2), [Complex64 (Complex 3 4)], 0)"

text \<open>A gradient engine that returns zero blocks of the right shape.\<close>

definition zero_grad ::
  "real list \<Rightarrow> (string \<times> nat \<times> nat) list \<Rightarrow> pynum list \<Rightarrow> pynum list \<Rightarrow>
     py_exn + (real list list \<times> real list list)" where
  "zero_grad x gids ff gg =
     Inr (map (\<lambda>v. map (\<lambda>u. 0) x) ff, map (\<lambda>v. map (\<lambda>u. 0) x) gg)"

text \<open>A serial run on rank 0 that records its history, and a fresh solver state.\<close>

definition serial_env :: env where
  "serial_env =
     \<lparr>myrank = 0, pll = False, sto_hst = True, group_ids = [], getGrad = zero_grad,
      root_h_start = False, root_fc = (Float 0, [], 0), root_grad = ([], [])\<rparr>"

definition fresh :: solver where
  "fresh = \<lparr>h_start = False, hos_file = \<lparr>hos_fc = [], hos_grad = []\<rparr>, events = []\<rparr>"

text \<open>A hot start from a log that holds one record of each kind.\<close>

definition hot :: solver where
  "hot =
     \<lparr>h_start = True,
      hos_file = \<lparr>hos_fc = [(Float 1, [Float 2], 0)],
                  hos_grad = [([0, 0], [0, 0])]\<rparr>,
      events = []\<rparr>"

text \<open>The files of a hot-start log \<open>hist\<close> and of the temporary log written beside it.\<close>

definition log_files :: fs where
  "log_files =
     map_of [(''hist.cue'', ''old index''), (''hist.bin'', ''old data''),
             (''hist_tmp.cue'', ''new index''), (''hist_tmp.bin'', ''new data'')]"

section \<open>Hot start: what a replayed evaluation does\<close>

text \<open>
  In \<open>evalfc\<close> the record read from the hot-start log binds \<open>ff\<close>, \<open>gg\<close> and \<open>flag\<close>;
  the local \<open>fail\<close>, which the store, the broadcast and the \<^verbatim>\<open>return\<close> read, is bound
  only by the broadcast and by the call of the user model. So an evaluation that
  replays a record on rank 0 never returns a value.
\<close>

lemmas evalfc_defs = evalfc_def groups_view_def evalfc_read_def evalfc_values_def
      evalfc_store_def evalfc_assign_def bcast_h_start_def Bcast_def emit_def read_local_def
      hos_read_fc_def assign_real_def Let_def
lemmas evalgjac_defs = evalgjac_def evalgjac_read_def evalgjac_live_def evalgjac_store_def
      evalgjac_assign_def bcast_h_start_def Bcast_def emit_def read_local_def hos_read_grad_def
      reshape_def Let_def
lemmas example_defs = serial_env_def con_prob_def opt_prob_def complex_model_def fresh_def hot_def

lemma evalfc_assign_unbound_fail: "\<exists>ex. evalfc_assign p (ff, gg, None) g = Inl ex"
  by (auto simp: evalfc_assign_def read_local_def split: sum.splits option.splits)

lemma evalfc_replay_never_returns:
  assumes "myrank e = 0" and "h_start s" and "hos_fc (hos_file s) \<noteq> []"
  shows "\<exists>ex. snd (evalfc e p n x f m g flag s) = Inl ex"
proof (cases "groups_view (use_groups p) (group_ids e) x")
  case (Inl ex)
  then show ?thesis by (simp add: evalfc_def)
next
  case (Inr xn)
  obtain r rs where q: "hos_fc (hos_file s) = r # rs" using assms(3) by (cases "hos_fc (hos_file s)") auto
  obtain obj con fl where r: "r = (obj, con, fl)" by (cases r) auto
  let ?s1 = "emit (HistRead [''obj'', ''con'', ''fail''])
               ((emit Flush s)\<lparr>hos_file := (hos_file s)\<lparr>hos_fc := rs\<rparr>\<rparr>)"
  have rd: "evalfc_read e (emit Flush s) = (?s1, Some obj, Some con, fl)"
    using assms(1,2) q r by (simp add: evalfc_read_def hos_read_fc_def emit_def)
  have h1: "h_start (bcast_h_start e ?s1)"
    using assms(1,2) by (simp add: bcast_h_start_def Bcast_def emit_def Let_def)
  show ?thesis
  proof (cases "pll e")
    case True
    then have "evalfc_values e p xn (Some obj, Some con, None) ?s1 =
                 (bcast_h_start e ?s1, Inl (Exn UnboundLocalError ''fail''))"
      using h1 by (simp add: evalfc_values_def read_local_def Let_def)
    then show ?thesis using Inr rd by (simp add: evalfc_def)
  next
    case False
    then have v: "evalfc_values e p xn (Some obj, Some con, None) ?s1 =
                 (bcast_h_start e ?s1, Inr (Some obj, Some con, None))"
      using h1 by (simp add: evalfc_values_def Let_def)
    obtain s3 r3 where st: "evalfc_store e x (Some obj, Some con, None) (bcast_h_start e ?s1) = (s3, r3)"
      by (cases "evalfc_store e x (Some obj, Some con, None) (bcast_h_start e ?s1)") auto
    obtain ex where "evalfc_assign p (Some obj, Some con, None) g = Inl ex"
      using evalfc_assign_unbound_fail by blast
    then show ?thesis using Inr rd v st by (cases r3) (simp_all add: evalfc_def)
  qed
qed

text \<open>
  The other half of the replay does hold: once the log is exhausted, rank 0 clears
  \<open>h_start\<close> and the same call goes on to the user model.
\<close>

lemma evalfc_store_keeps:
  "h_start (fst (evalfc_store e x loc s)) = h_start s \<and>
   set (events s) \<subseteq> set (events (fst (evalfc_store e x loc s)))"
  by (auto simp: evalfc_store_def emit_def Let_def read_local_def
      split: prod.splits sum.splits option.splits)

lemma evalfc_exhausted_goes_live:
  assumes "myrank e = 0" and "h_start s" and "hos_fc (hos_file s) = []"
    and "groups_view (use_groups p) (group_ids e) x = Inr xn"
  shows "\<not> h_start (fst (evalfc e p n x f m g flag s)) \<and>
         UserCall xn \<in> set (events (fst (evalfc e p n x f m g flag s)))"
proof -
  let ?s1 = "emit HistClose (emit (HistRead [''obj'', ''con'', ''fail'']) (emit Flush s))
               \<lparr>h_start := False\<rparr>"
  have rd: "evalfc_read e (emit Flush s) = (?s1, None, None, 0)"
    using assms(1-3) by (simp add: evalfc_read_def hos_read_fc_def emit_def)
  have b: "\<not> h_start (bcast_h_start e ?s1)"
    using assms(1) by (simp add: bcast_h_start_def Bcast_def emit_def Let_def)
  let ?s2 = "emit (UserCall xn) (bcast_h_start e ?s1)"
  have s2: "\<not> h_start ?s2" "UserCall xn \<in> set (events ?s2)"
    using b by (simp_all add: emit_def)
  obtain r2 where v: "evalfc_values e p xn (None, None, None) ?s1 = (?s2, r2)"
    using b by (cases "obj_fun p xn") (auto simp: evalfc_values_def Let_def)
  show ?thesis
  proof (cases r2)
    case (Inl ex)
    then show ?thesis using assms(4) rd v s2 by (simp add: evalfc_def)
  next
    case (Inr loc)
    obtain s3 r3 where c: "evalfc_store e x loc ?s2 = (s3, r3)"
      by (cases "evalfc_store e x loc ?s2") auto
    have k: "h_start s3 = h_start ?s2" "set (events ?s2) \<subseteq> set (events s3)"
      using evalfc_store_keeps [of e x loc ?s2] c by simp_all
    have "fst (evalfc e p n x f m g flag s) = s3"
      using assms(4) rd v Inr c by (cases r3) (simp_all add: evalfc_def)
    then show ?thesis using k s2 by auto
  qed
qed

text \<open>
  C1 at a concrete hot start: a serial run on rank 0 without recording, with a log that
  holds one record of each kind. \<open>evalfc\<close> reads the record and raises
  \<open>UnboundLocalError\<close> for \<open>fail\<close> instead of returning the logged values; \<open>evalgjac\<close>
  reads the gradient record and raises the same at its \<^verbatim>\<open>return\<close>.
\<close>

theorem hot_start_replay_raises:
  "evalfc (serial_env\<lparr>sto_hst := False\<rparr>) con_prob 2 [1, 2] (Float 0) 1 [Float 0] 0 hot =
     (\<lparr>h_start = True, hos_file = \<lparr>hos_fc = [], hos_grad = [([0, 0], [0, 0])]\<rparr>,
       events = [Flush, HistRead [''obj'', ''con'', ''fail'']]\<rparr>,
      Inl (Exn UnboundLocalError ''fail'')) \<and>
   evalgjac (serial_env\<lparr>sto_hst := False\<rparr>) con_prob 2 [1, 2] [0, 0] 1 [0, 0] [0, 0] [0, 0]
      0 0 hot =
     (\<lparr>h_start = True, hos_file = \<lparr>hos_fc = [(Float 1, [Float 2], 0)], hos_grad = []\<rparr>,
       events = [HistRead [''grad_obj'', ''grad_con'']]\<rparr>,
      Inl (Exn UnboundLocalError ''fail''))"
  by (simp add: evalfc_defs evalgjac_defs example_defs)

text \<open>
  What does hold of the order of events in parallel mode: after the flush, the log is
  read on rank 0 only, then \<open>h_start\<close> is broadcast (every other rank takes the value
  of rank 0), and the user model is called only after that and only when the broadcast
  value is false. When it is true nothing follows the broadcast of the flag: the
  broadcast of the replayed values is never reached.
\<close>

lemma evalfc_read_events:
  "\<exists>es. events (fst (evalfc_read e s)) = events s @ es \<and>
        set es \<subseteq> {HistRead [''obj'', ''con'', ''fail''], HistClose} \<and>
        (myrank e \<noteq> 0 \<longrightarrow> es = [] \<and> h_start (fst (evalfc_read e s)) = h_start s)"
  by (auto simp: evalfc_read_def emit_def split: prod.splits option.splits)

lemma evalfc_values_events:
  assumes "pll e"
  shows "\<exists>b es. events (fst (evalfc_values e p xn (ff, gg, None) s)) =
                  events s @ BcastFlag b # es \<and>
           b = Bcast e (h_start s) (root_h_start e) \<and>
           (es = [] \<and> b \<or> es = [UserCall xn] \<and> \<not> b)"
  using assms
  by (auto simp: evalfc_values_def bcast_h_start_def emit_def read_local_def Let_def
      split: prod.splits sum.splits)

lemma evalfc_store_events:
  "\<exists>es. events (fst (evalfc_store e x loc s)) = events s @ es \<and> (\<forall>ev \<in> set es. is_LogWrite ev)"
  by (auto simp: evalfc_store_def emit_def Let_def split: prod.splits sum.splits)


lemma evalfc_parallel_order:
  assumes "pll e" and "groups_view (use_groups p) (group_ids e) x = Inr xn"
  shows "\<exists>rd b es ws.
           events (fst (evalfc e p n x f m g flag s)) =
             events s @ Flush # rd @ BcastFlag b # es @ ws \<and>
           set rd \<subseteq> {HistRead [''obj'', ''con'', ''fail''], HistClose} \<and>
           (myrank e \<noteq> 0 \<longrightarrow> rd = [] \<and> b = root_h_start e) \<and>
           (es = [] \<and> b \<or> es = [UserCall xn] \<and> \<not> b) \<and>
           (\<forall>ev \<in> set ws. is_LogWrite ev)"
proof -
  obtain s1 ff gg fl where a: "evalfc_read e (emit Flush s) = (s1, ff, gg, fl)"
    by (cases "evalfc_read e (emit Flush s)") auto
  obtain rd where rd: "events s1 = events s @ Flush # rd"
    "set rd \<subseteq> {HistRead [''obj'', ''con'', ''fail''], HistClose}"
    "myrank e \<noteq> 0 \<longrightarrow> rd = [] \<and> h_start s1 = h_start s"
    using evalfc_read_events [of e "emit Flush s"] a by (auto simp: emit_def)
  obtain s2 r2 where b: "evalfc_values e p xn (ff, gg, None) s1 = (s2, r2)"
    by (cases "evalfc_values e p xn (ff, gg, None) s1") auto
  obtain bf es where es: "events s2 = events s1 @ BcastFlag bf # es"
    "bf = Bcast e (h_start s1) (root_h_start e)"
    "es = [] \<and> bf \<or> es = [UserCall xn] \<and> \<not> bf"
    using evalfc_values_events [OF assms(1), of p xn ff gg s1] b by auto
  have bf: "myrank e \<noteq> 0 \<longrightarrow> bf = root_h_start e"
    using es(2) by (simp add: Bcast_def)
  show ?thesis
  proof (cases r2)
    case (Inl ex)
    then have "events (fst (evalfc e p n x f m g flag s)) =
                 events s @ Flush # rd @ BcastFlag bf # es @ []"
      using assms(2) a b rd(1) es(1) by (simp add: evalfc_def)
    then show ?thesis using rd(2,3) bf es(3) by (metis empty_iff list.set(1))
  next
    case (Inr loc)
    obtain s3 r3 where c: "evalfc_store e x loc s2 = (s3, r3)"
      by (cases "evalfc_store e x loc s2") auto
    obtain ws where ws: "events s3 = events s2 @ ws" "\<forall>ev \<in> set ws. is_LogWrite ev"
      using evalfc_store_events [of e x loc s2] c by auto
    have "fst (evalfc e p n x f m g flag s) = s3"
      using assms(2) a b Inr c by (cases r3) (simp_all add: evalfc_def)
    then have "events (fst (evalfc e p n x f m g flag s)) =
                 events s @ Flush # rd @ BcastFlag bf # es @ ws"
      using rd(1) es(1) ws(1) by simp
    then show ?thesis using rd(2,3) bf es(3) ws(2) by blast
  qed
qed

text \<open>
  C7 at a concrete parallel hot start with a log of one record. Rank 0 reads the record
  and broadcasts \<open>h_start = True\<close>, then raises \<open>UnboundLocalError\<close> for \<open>fail\<close> while it
  builds the argument of the second broadcast; rank 1 receives \<open>h_start = True\<close> and
  raises for \<open>ff\<close> at the same place. The replayed values are not broadcast on either
  rank.
\<close>

theorem parallel_replay_values_not_broadcast:
  "evalfc (serial_env\<lparr>pll := True, sto_hst := False\<rparr>) con_prob 2 [1, 2] (Float 0) 1
      [Float 0] 0 hot =
     (\<lparr>h_start = True, hos_file = \<lparr>hos_fc = [], hos_grad = [([0, 0], [0, 0])]\<rparr>,
       events = [Flush, HistRead [''obj'', ''con'', ''fail''], BcastFlag True]\<rparr>,
      Inl (Exn UnboundLocalError ''fail'')) \<and>
   evalfc (serial_env\<lparr>myrank := 1, pll := True, sto_hst := False, root_h_start := True,
                       root_fc := (Float 1, [Float 2], 0)\<rparr>)
      con_prob 2 [1, 2] (Float 0) 1 [Float 0] 0 hot =
     (\<lparr>h_start = True,
       hos_file = \<lparr>hos_fc = [(Float 1, [Float 2], 0)], hos_grad = [([0, 0], [0, 0])]\<rparr>,
       events = [Flush, BcastFlag True]\<rparr>,
      Inl (Exn UnboundLocalError ''ff''))"
  by (simp add: evalfc_defs example_defs)

section \<open>The promotion of the temporary log at the end of a solve\<close>

lemma names_distinct:
  "name @ ''.cue'' \<noteq> name @ ''.bin''"
  "name @ ''_tmp.cue'' \<noteq> name @ ''.cue''"
  "name @ ''_tmp.cue'' \<noteq> name @ ''.bin''"
  "name @ ''_tmp.bin'' \<noteq> name @ ''.cue''"
  "name @ ''_tmp.bin'' \<noteq> name @ ''.bin''"
  "name @ ''_tmp.cue'' \<noteq> name @ ''_tmp.bin''"
  by simp_all

lemma promote_all:
  assumes "files (name @ ''.cue'') = Some c0" and "files (name @ ''.bin'') = Some b0"
    and "files (name @ ''_tmp.cue'') = Some c1" and "files (name @ ''_tmp.bin'') = Some b1"
  shows "fs_run (promote_ops name) files =
           Inr (files(name @ ''_tmp.cue'' := None, name @ ''_tmp.bin'' := None,
                      name @ ''.cue'' \<mapsto> c1, name @ ''.bin'' \<mapsto> b1))"
  using assms by (auto simp: promote_ops_def fun_upd_def)

text \<open>
  C2, as the code has it. On rank 0, with recording on and a temporary log, when the two
  files of the original log and the two files of the temporary log exist, the block
  returns with the temporary files gone and their contents under the canonical names,
  every other file untouched; in every other case (another rank, recording off, no
  temporary log) the files are left as they are. The replacement is four separate
  calls: after the first one the canonical index file is missing, and it stays missing
  until the third.
\<close>

theorem finalize_promotes_temporary_log:
  assumes "files (name @ ''.cue'') = Some c0" and "files (name @ ''.bin'') = Some b0"
    and "files (name @ ''_tmp.cue'') = Some c1" and "files (name @ ''_tmp.bin'') = Some b1"
  shows "finalize rank sto tmp_file name files =
           Inr (if rank = 0 \<and> sto \<and> tmp_file
                then files(name @ ''_tmp.cue'' := None, name @ ''_tmp.bin'' := None,
                           name @ ''.cue'' \<mapsto> c1, name @ ''.bin'' \<mapsto> b1)
                else files) \<and>
         fs_run (take 1 (promote_ops name)) files = Inr (files(name @ ''.cue'' := None)) \<and>
         fs_run (take 2 (promote_ops name)) files =
           Inr (files(name @ ''.cue'' := None, name @ ''.bin'' := None))"
proof -
  have "finalize rank sto tmp_file name files =
           Inr (if rank = 0 \<and> sto \<and> tmp_file
                then files(name @ ''_tmp.cue'' := None, name @ ''_tmp.bin'' := None,
                           name @ ''.cue'' \<mapsto> c1, name @ ''.bin'' \<mapsto> b1)
                else files)"
    using promote_all [OF assms] by (simp add: finalize_def)
  moreover have "fs_run (take 1 (promote_ops name)) files = Inr (files(name @ ''.cue'' := None))"
    using assms by (simp add: promote_ops_def)
  moreover have "fs_run (take 2 (promote_ops name)) files =
           Inr (files(name @ ''.cue'' := None, name @ ''.bin'' := None))"
    using assms by (simp add: promote_ops_def numeral_2_eq_2)
  ultimately show ?thesis by simp
qed

theorem finalize_promotes_temporary_log_witness:
  "finalize 0 True True ''hist'' log_files =
     Inr (log_files(''hist_tmp.cue'' := None, ''hist_tmp.bin'' := None,
                    ''hist.cue'' \<mapsto> ''new index'', ''hist.bin'' \<mapsto> ''new data''))"
proof -
  have a: "log_files (''hist'' @ ''.cue'') = Some ''old index''"
    and b: "log_files (''hist'' @ ''.bin'') = Some ''old data''"
    and c: "log_files (''hist'' @ ''_tmp.cue'') = Some ''new index''"
    and d: "log_files (''hist'' @ ''_tmp.bin'') = Some ''new data''"
    by (simp_all add: log_files_def)
  show ?thesis
    using finalize_promotes_temporary_log [OF a b c d, of 0 True True] by simp
qed

text \<open>
  The claim C2 as written fails: stopped after the first of the four calls, the
  canonical index file \<open>hist.cue\<close> is missing; stopped after the second, the original
  log is gone and the canonical names hold nothing.
\<close>

theorem promotion_not_atomic:
  "fs_run (take 1 (promote_ops ''hist'')) log_files = Inr (log_files(''hist.cue'' := None)) \<and>
   (log_files(''hist.cue'' := None)) ''hist.cue'' = None \<and>
   fs_run (take 2 (promote_ops ''hist'')) log_files =
     Inr (log_files(''hist.cue'' := None, ''hist.bin'' := None)) \<and>
   (log_files(''hist.cue'' := None, ''hist.bin'' := None)) ''hist.bin'' = None"
  by (simp add: promote_ops_def log_files_def numeral_2_eq_2)

section \<open>Properties of the set-up phase\<close>

lemma variables_loop_find:
  "variables_loop vs (xl, xu, xx) =
     (case find (\<lambda>v. v_type v = ''i'' \<or> v_type v = ''d'') vs of
        None \<Rightarrow>
          Inr (xl @ map v_lower (filter (\<lambda>v. v_type v = ''c'') vs),
               xu @ map v_upper (filter (\<lambda>v. v_type v = ''c'') vs),
               xx @ map v_value (filter (\<lambda>v. v_type v = ''c'') vs))
      | Some v \<Rightarrow>
          Inl (Exn IOError
                 (if v_type v = ''i'' then ''NLPQL cannot handle integer design variables''
                  else ''NLPQL cannot handle discrete design variables'')))"
  by (induction vs arbitrary: xl xu xx) (auto split: option.splits)

lemma find_non_continuous:
  assumes "v \<in> set vs" and "v_type v = ''i'' \<or> v_type v = ''d''"
  shows "\<exists>w. find (\<lambda>v. v_type v = ''i'' \<or> v_type v = ''d'') vs = Some w
              \<and> w \<in> set vs \<and> (v_type w = ''i'' \<or> v_type w = ''d'')"
proof (cases "find (\<lambda>v. v_type v = ''i'' \<or> v_type v = ''d'') vs")
  case None
  then show ?thesis using assms by (auto simp: find_None_iff)
next
  case (Some w)
  then show ?thesis by (auto simp: find_Some_iff)
qed

text \<open>
  C3, as the code has it. For every problem with at least one variable of type \<open>i\<close> or
  \<open>d\<close>, once the parallel set-up and the history set-up have gone through, the solve
  fails with an \<open>IOError\<close>; its message is one of two fixed texts, chosen by the type of
  the first such variable in registration order, and does not name the variable. The
  outcome is the same whatever the solver and the callbacks would do, so nothing has been
  evaluated, and no list of bounds or start values is produced.
\<close>

theorem solve_rejects_non_continuous:
  assumes "parallel_setup poa sens_mode mpi_rank = Inr pr"
    and "hist = Inr h"
    and "v \<in> set (variables opt_problem)"
    and "v_type v = ''i'' \<or> v_type v = ''d''"
  shows "\<exists>w \<in> set (variables opt_problem).
           find (\<lambda>v. v_type v = ''i'' \<or> v_type v = ''d'') (variables opt_problem) = Some w \<and>
           ALGENCAN_solve poa sens_mode mpi_rank hist opt_problem algencan =
             Inl (Exn IOError
                   (if v_type w = ''i'' then ''NLPQL cannot handle integer design variables''
                    else ''NLPQL cannot handle discrete design variables''))"
proof -
  obtain w where w: "find (\<lambda>v. v_type v = ''i'' \<or> v_type v = ''d'') (variables opt_problem) = Some w"
    "w \<in> set (variables opt_problem)"
    using find_non_continuous [OF assms(3,4)] by blast
  obtain pll myrank where pr: "pr = (pll, myrank)" by (cases pr)
  have "solve_setup poa sens_mode mpi_rank hist opt_problem =
          Inl (Exn IOError
                (if v_type w = ''i'' then ''NLPQL cannot handle integer design variables''
                 else ''NLPQL cannot handle discrete design variables''))"
    unfolding solve_setup_def using assms(1,2) pr w(1)
    by (simp add: variables_loop_find)
  then show ?thesis using w by (simp add: ALGENCAN_solve_def)
qed

theorem solve_rejects_non_continuous_witness:
  "ALGENCAN_solve False ''fd'' None (Inr no_history)
      (opt_prob\<lparr>variables :=
         [\<lparr>v_name = ''x1'', v_type = ''c'', v_lower = -10, v_upper = 10, v_value = -3\<rparr>,
          \<lparr>v_name = ''n'', v_type = ''d'', v_lower = 0, v_upper = 5, v_value = 2\<rparr>,
          \<lparr>v_name = ''k'', v_type = ''i'', v_lower = 0, v_upper = 5, v_value = 2\<rparr>]\<rparr>)
      (Inr :: solver_args \<Rightarrow> py_exn + solver_args)
    = Inl (Exn IOError ''NLPQL cannot handle discrete design variables'')"
proof -
  let ?n = "\<lparr>v_name = ''n'', v_type = ''d'', v_lower = 0, v_upper = 5, v_value = 2\<rparr>"
  let ?p = "opt_prob\<lparr>variables :=
         [\<lparr>v_name = ''x1'', v_type = ''c'', v_lower = -10, v_upper = 10, v_value = -3\<rparr>,
          ?n,
          \<lparr>v_name = ''k'', v_type = ''i'', v_lower = 0, v_upper = 5, v_value = 2\<rparr>]\<rparr>"
  have a: "parallel_setup False ''fd'' None = Inr (False, 0)"
    by (simp add: parallel_setup_def str_lower_def lower_char_def)
  have b: "?n \<in> set (variables ?p)" by simp
  have c: "v_type ?n = ''i'' \<or> v_type ?n = ''d''" by simp
  show ?thesis
    using solve_rejects_non_continuous [OF a refl b c, of no_history Inr]
    by simp
qed

text \<open>
  The claim C3 as written fails: a problem with the integer variable \<open>k\<close> is rejected
  with an \<open>IOError\<close>, not a \<open>ConfigurationError\<close>, and the message does not name \<open>k\<close>.
\<close>

theorem solve_integer_not_ConfigurationError:
  "solve_setup False ''fd'' None (Inr no_history)
      (opt_prob\<lparr>variables :=
         [\<lparr>v_name = ''k'', v_type = ''i'', v_lower = 0, v_upper = 5, v_value = 2\<rparr>]\<rparr>)
    = Inl (Exn IOError ''NLPQL cannot handle integer design variables'')
   \<and> IOError \<noteq> ConfigurationError"
  by (simp add: solve_setup_def parallel_setup_def str_lower_def lower_char_def)

text \<open>
  C4, as the code has it. For every problem with no constraints, once the parallel
  set-up and the history set-up have gone through, the solve fails with an \<open>IOError\<close>
  whatever the solver and the callbacks would do: the one for the first variable of type
  \<open>i\<close> or \<open>d\<close> when there is one, since the variables are walked first, and otherwise
  the one that says unconstrained problems are not supported.
\<close>

theorem solve_rejects_unconstrained:
  assumes "parallel_setup poa sens_mode mpi_rank = Inr pr"
    and "hist = Inr h"
    and "constraints opt_problem = []"
  shows "ALGENCAN_solve poa sens_mode mpi_rank hist opt_problem algencan =
           Inl (Exn IOError
             (case find (\<lambda>v. v_type v = ''i'' \<or> v_type v = ''d'') (variables opt_problem) of
                None \<Rightarrow> ''ALGENCAN support for unconstrained problems not implemented yet''
              | Some w \<Rightarrow>
                  if v_type w = ''i'' then ''NLPQL cannot handle integer design variables''
                  else ''NLPQL cannot handle discrete design variables''))"
proof -
  obtain pll myrank where pr: "pr = (pll, myrank)" by (cases pr)
  show ?thesis
    unfolding ALGENCAN_solve_def solve_setup_def using assms pr
    by (simp add: variables_loop_find split: option.splits)
qed

theorem solve_rejects_unconstrained_witness:
  "ALGENCAN_solve False ''fd'' None (Inr no_history) opt_prob
      (Inr :: solver_args \<Rightarrow> py_exn + solver_args)
    = Inl (Exn IOError ''ALGENCAN support for unconstrained problems not implemented yet'')"
proof -
  have a: "parallel_setup False ''fd'' None = Inr (False, 0)"
    by (simp add: parallel_setup_def str_lower_def lower_char_def)
  have c: "constraints opt_prob = []" by (simp add: opt_prob_def)
  show ?thesis
    using solve_rejects_unconstrained [OF a refl c, of no_history Inr]
    by (simp add: opt_prob_def)
qed

text \<open>
  The claim C4 as written fails: the unconstrained problem of the example script is
  rejected with an \<open>IOError\<close>, not a \<open>ConfigurationError\<close>.
\<close>

theorem solve_unconstrained_not_ConfigurationError:
  "solve_setup False ''fd'' None (Inr no_history) opt_prob
    = Inl (Exn IOError ''ALGENCAN support for unconstrained problems not implemented yet'')
   \<and> IOError \<noteq> ConfigurationError"
  by (simp add: solve_setup_def parallel_setup_def str_lower_def lower_char_def opt_prob_def)

section \<open>The layout of the Jacobian buffers\<close>

lemma jac_inner_spec:
  assumes "jcnnz + length iis \<le> length jcfun"
    and "jcnnz + length iis \<le> length jcvar"
    and "jcnnz + length iis \<le> length jcval"
    and "jj < length d"
    and "\<forall>ii \<in> set iis. ii < length (d ! jj)"
  shows "\<exists>jcfun' jcvar' jcval'.
           jac_inner jj iis (Some d) (jcfun, jcvar, jcval, jcnnz) =
             Inr (jcfun', jcvar', jcval', jcnnz + length iis) \<and>
           length jcfun' = length jcfun \<and> length jcvar' = length jcvar \<and>
           length jcval' = length jcval \<and>
           (\<forall>k. k < jcnnz \<or> jcnnz + length iis \<le> k \<longrightarrow>
                jcfun' ! k = jcfun ! k \<and> jcvar' ! k = jcvar ! k \<and> jcval' ! k = jcval ! k) \<and>
           (\<forall>k < length iis.
                jcfun' ! (jcnnz + k) = int jj + 1 \<and>
                jcvar' ! (jcnnz + k) = int (iis ! k) + 1 \<and>
                jcval' ! (jcnnz + k) = d ! jj ! (iis ! k))"
  using assms
proof (induction iis arbitrary: jcfun jcvar jcval jcnnz)
  case Nil
  then show ?case by simp
next
  case (Cons ii iis)
  let ?f = "jcfun[jcnnz := int jj + 1]"
  let ?v = "jcvar[jcnnz := int ii + 1]"
  let ?a = "jcval[jcnnz := d ! jj ! ii]"
  have step: "jac_inner jj (ii # iis) (Some d) (jcfun, jcvar, jcval, jcnnz) =
                jac_inner jj iis (Some d) (?f, ?v, ?a, jcnnz + 1)"
    using Cons.prems by (simp add: read_local_def)
  have "\<exists>jcfun' jcvar' jcval'.
           jac_inner jj iis (Some d) (?f, ?v, ?a, jcnnz + 1) =
             Inr (jcfun', jcvar', jcval', jcnnz + 1 + length iis) \<and>
           length jcfun' = length ?f \<and> length jcvar' = length ?v \<and>
           length jcval' = length ?a \<and>
           (\<forall>k. k < jcnnz + 1 \<or> jcnnz + 1 + length iis \<le> k \<longrightarrow>
                jcfun' ! k = ?f ! k \<and> jcvar' ! k = ?v ! k \<and> jcval' ! k = ?a ! k) \<and>
           (\<forall>k < length iis.
                jcfun' ! (jcnnz + 1 + k) = int jj + 1 \<and>
                jcvar' ! (jcnnz + 1 + k) = int (iis ! k) + 1 \<and>
                jcval' ! (jcnnz + 1 + k) = d ! jj ! (iis ! k))"
    using Cons.prems by (intro Cons.IH) simp_all
  then obtain f' v' a' where r0:
    "jac_inner jj iis (Some d) (?f, ?v, ?a, jcnnz + 1) =
             Inr (f', v', a', jcnnz + 1 + length iis) \<and>
           length f' = length ?f \<and> length v' = length ?v \<and>
           length a' = length ?a \<and>
           (\<forall>k. k < jcnnz + 1 \<or> jcnnz + 1 + length iis \<le> k \<longrightarrow>
                f' ! k = ?f ! k \<and> v' ! k = ?v ! k \<and> a' ! k = ?a ! k) \<and>
           (\<forall>k < length iis.
                f' ! (jcnnz + 1 + k) = int jj + 1 \<and>
                v' ! (jcnnz + 1 + k) = int (iis ! k) + 1 \<and>
                a' ! (jcnnz + 1 + k) = d ! jj ! (iis ! k))"
    by blast
  have r1: "jac_inner jj iis (Some d) (?f, ?v, ?a, jcnnz + 1) =
              Inr (f', v', a', jcnnz + 1 + length iis)"
    using r0 by blast
  have r2: "length f' = length jcfun" "length v' = length jcvar" "length a' = length jcval"
    using r0 by simp_all
  have r5: "\<And>k. k < jcnnz + 1 \<or> jcnnz + 1 + length iis \<le> k \<Longrightarrow>
                f' ! k = ?f ! k \<and> v' ! k = ?v ! k \<and> a' ! k = ?a ! k"
    using r0 by blast
  have r6: "\<And>k. k < length iis \<Longrightarrow>
                f' ! (jcnnz + 1 + k) = int jj + 1 \<and>
                v' ! (jcnnz + 1 + k) = int (iis ! k) + 1 \<and>
                a' ! (jcnnz + 1 + k) = d ! jj ! (iis ! k)"
    using r0 by blast
  have out: "\<forall>k. k < jcnnz \<or> jcnnz + length (ii # iis) \<le> k \<longrightarrow>
                f' ! k = jcfun ! k \<and> v' ! k = jcvar ! k \<and> a' ! k = jcval ! k"
  proof (intro allI impI)
    fix k assume k: "k < jcnnz \<or> jcnnz + length (ii # iis) \<le> k"
    then have "k < jcnnz + 1 \<or> jcnnz + 1 + length iis \<le> k" and "k \<noteq> jcnnz" by auto
    then show "f' ! k = jcfun ! k \<and> v' ! k = jcvar ! k \<and> a' ! k = jcval ! k"
      using r5 [of k] by simp
  qed
  have inn: "\<forall>k < length (ii # iis).
                f' ! (jcnnz + k) = int jj + 1 \<and>
                v' ! (jcnnz + k) = int ((ii # iis) ! k) + 1 \<and>
                a' ! (jcnnz + k) = d ! jj ! ((ii # iis) ! k)"
  proof (intro allI impI)
    fix k assume k: "k < length (ii # iis)"
    show "f' ! (jcnnz + k) = int jj + 1 \<and>
                v' ! (jcnnz + k) = int ((ii # iis) ! k) + 1 \<and>
                a' ! (jcnnz + k) = d ! jj ! ((ii # iis) ! k)"
    proof (cases k)
      case 0
      then show ?thesis using r5 [of jcnnz] Cons.prems by simp
    next
      case (Suc k')
      then show ?thesis using r6 [of k'] k by simp
    qed
  qed
  show ?case
    unfolding step using r1 r2 out inn by simp
qed


lemma jac_outer_spec:
  assumes "jcnnz + length jjs * n \<le> length jcfun"
    and "jcnnz + length jjs * n \<le> length jcvar"
    and "jcnnz + length jjs * n \<le> length jcval"
    and "\<forall>jj \<in> set jjs. jj < length d \<and> n \<le> length (d ! jj)"
  shows "\<exists>jcfun' jcvar' jcval'.
           jac_outer jjs [0..<n] (Some d) (jcfun, jcvar, jcval, jcnnz) =
             Inr (jcfun', jcvar', jcval', jcnnz + length jjs * n) \<and>
           length jcfun' = length jcfun \<and> length jcvar' = length jcvar \<and>
           length jcval' = length jcval \<and>
           (\<forall>k. k < jcnnz \<or> jcnnz + length jjs * n \<le> k \<longrightarrow>
                jcfun' ! k = jcfun ! k \<and> jcvar' ! k = jcvar ! k \<and> jcval' ! k = jcval ! k) \<and>
           (\<forall>a < length jjs. \<forall>b < n.
                jcfun' ! (jcnnz + a * n + b) = int (jjs ! a) + 1 \<and>
                jcvar' ! (jcnnz + a * n + b) = int b + 1 \<and>
                jcval' ! (jcnnz + a * n + b) = d ! (jjs ! a) ! b)"
  using assms
proof (induction jjs arbitrary: jcfun jcvar jcval jcnnz)
  case Nil
  then show ?case by simp
next
  case (Cons jj jjs)
  have len: "jcnnz + n + length jjs * n \<le> length jcfun"
    "jcnnz + n + length jjs * n \<le> length jcvar"
    "jcnnz + n + length jjs * n \<le> length jcval"
    using Cons.prems by (simp_all add: algebra_simps)
  have jj: "jj < length d" "n \<le> length (d ! jj)" using Cons.prems by simp_all
  have "\<exists>jcfun' jcvar' jcval'.
           jac_inner jj [0..<n] (Some d) (jcfun, jcvar, jcval, jcnnz) =
             Inr (jcfun', jcvar', jcval', jcnnz + length [0..<n]) \<and>
           length jcfun' = length jcfun \<and> length jcvar' = length jcvar \<and>
           length jcval' = length jcval \<and>
           (\<forall>k. k < jcnnz \<or> jcnnz + length [0..<n] \<le> k \<longrightarrow>
                jcfun' ! k = jcfun ! k \<and> jcvar' ! k = jcvar ! k \<and> jcval' ! k = jcval ! k) \<and>
           (\<forall>k < length [0..<n].
                jcfun' ! (jcnnz + k) = int jj + 1 \<and>
                jcvar' ! (jcnnz + k) = int ([0..<n] ! k) + 1 \<and>
                jcval' ! (jcnnz + k) = d ! jj ! ([0..<n] ! k))"
    using len jj by (intro jac_inner_spec) auto
  then obtain f1 v1 a1 where i0:
    "jac_inner jj [0..<n] (Some d) (jcfun, jcvar, jcval, jcnnz) = Inr (f1, v1, a1, jcnnz + n) \<and>
     length f1 = length jcfun \<and> length v1 = length jcvar \<and> length a1 = length jcval \<and>
     (\<forall>k. k < jcnnz \<or> jcnnz + n \<le> k \<longrightarrow>
          f1 ! k = jcfun ! k \<and> v1 ! k = jcvar ! k \<and> a1 ! k = jcval ! k) \<and>
     (\<forall>k < n. f1 ! (jcnnz + k) = int jj + 1 \<and> v1 ! (jcnnz + k) = int k + 1 \<and>
          a1 ! (jcnnz + k) = d ! jj ! k)"
    by auto
  have i1: "jac_inner jj [0..<n] (Some d) (jcfun, jcvar, jcval, jcnnz) = Inr (f1, v1, a1, jcnnz + n)"
    using i0 by blast
  have i2: "length f1 = length jcfun" "length v1 = length jcvar" "length a1 = length jcval"
    using i0 by simp_all
  have i5: "\<And>k. k < jcnnz \<or> jcnnz + n \<le> k \<Longrightarrow>
          f1 ! k = jcfun ! k \<and> v1 ! k = jcvar ! k \<and> a1 ! k = jcval ! k"
    using i0 by blast
  have i6: "\<And>k. k < n \<Longrightarrow> f1 ! (jcnnz + k) = int jj + 1 \<and> v1 ! (jcnnz + k) = int k + 1 \<and>
          a1 ! (jcnnz + k) = d ! jj ! k"
    using i0 by blast
  have "\<exists>jcfun' jcvar' jcval'.
           jac_outer jjs [0..<n] (Some d) (f1, v1, a1, jcnnz + n) =
             Inr (jcfun', jcvar', jcval', jcnnz + n + length jjs * n) \<and>
           length jcfun' = length f1 \<and> length jcvar' = length v1 \<and>
           length jcval' = length a1 \<and>
           (\<forall>k. k < jcnnz + n \<or> jcnnz + n + length jjs * n \<le> k \<longrightarrow>
                jcfun' ! k = f1 ! k \<and> jcvar' ! k = v1 ! k \<and> jcval' ! k = a1 ! k) \<and>
           (\<forall>a < length jjs. \<forall>b < n.
                jcfun' ! (jcnnz + n + a * n + b) = int (jjs ! a) + 1 \<and>
                jcvar' ! (jcnnz + n + a * n + b) = int b + 1 \<and>
                jcval' ! (jcnnz + n + a * n + b) = d ! (jjs ! a) ! b)"
    using len i2 Cons.prems(4) by (intro Cons.IH) simp_all
  then obtain f2 v2 a2 where o0:
    "jac_outer jjs [0..<n] (Some d) (f1, v1, a1, jcnnz + n) =
             Inr (f2, v2, a2, jcnnz + n + length jjs * n) \<and>
           length f2 = length f1 \<and> length v2 = length v1 \<and>
           length a2 = length a1 \<and>
           (\<forall>k. k < jcnnz + n \<or> jcnnz + n + length jjs * n \<le> k \<longrightarrow>
                f2 ! k = f1 ! k \<and> v2 ! k = v1 ! k \<and> a2 ! k = a1 ! k) \<and>
           (\<forall>a < length jjs. \<forall>b < n.
                f2 ! (jcnnz + n + a * n + b) = int (jjs ! a) + 1 \<and>
                v2 ! (jcnnz + n + a * n + b) = int b + 1 \<and>
                a2 ! (jcnnz + n + a * n + b) = d ! (jjs ! a) ! b)"
    by blast
  have o1: "jac_outer jjs [0..<n] (Some d) (f1, v1, a1, jcnnz + n) =
             Inr (f2, v2, a2, jcnnz + n + length jjs * n)"
    using o0 by blast
  have o2: "length f2 = length jcfun" "length v2 = length jcvar" "length a2 = length jcval"
    using o0 i2 by simp_all
  have o5: "\<And>k. k < jcnnz + n \<or> jcnnz + n + length jjs * n \<le> k \<Longrightarrow>
                f2 ! k = f1 ! k \<and> v2 ! k = v1 ! k \<and> a2 ! k = a1 ! k"
    using o0 by blast
  have o6: "\<And>a b. a < length jjs \<Longrightarrow> b < n \<Longrightarrow>
                f2 ! (jcnnz + n + a * n + b) = int (jjs ! a) + 1 \<and>
                v2 ! (jcnnz + n + a * n + b) = int b + 1 \<and>
                a2 ! (jcnnz + n + a * n + b) = d ! (jjs ! a) ! b"
    using o0 by blast
  have res: "jac_outer (jj # jjs) [0..<n] (Some d) (jcfun, jcvar, jcval, jcnnz) =
               Inr (f2, v2, a2, jcnnz + length (jj # jjs) * n)"
    using i1 o1 by (simp add: algebra_simps)
  have out: "\<forall>k. k < jcnnz \<or> jcnnz + length (jj # jjs) * n \<le> k \<longrightarrow>
                f2 ! k = jcfun ! k \<and> v2 ! k = jcvar ! k \<and> a2 ! k = jcval ! k"
  proof (intro allI impI)
    fix k assume k: "k < jcnnz \<or> jcnnz + length (jj # jjs) * n \<le> k"
    then have k1: "k < jcnnz + n \<or> jcnnz + n + length jjs * n \<le> k"
      and k2: "k < jcnnz \<or> jcnnz + n \<le> k"
      by (auto simp: algebra_simps)
    show "f2 ! k = jcfun ! k \<and> v2 ! k = jcvar ! k \<and> a2 ! k = jcval ! k"
      using o5 [OF k1] i5 [OF k2] by simp
  qed
  have inn: "\<forall>a < length (jj # jjs). \<forall>b < n.
                f2 ! (jcnnz + a * n + b) = int ((jj # jjs) ! a) + 1 \<and>
                v2 ! (jcnnz + a * n + b) = int b + 1 \<and>
                a2 ! (jcnnz + a * n + b) = d ! ((jj # jjs) ! a) ! b"
  proof (intro allI impI)
    fix a b assume a: "a < length (jj # jjs)" and b: "b < n"
    show "f2 ! (jcnnz + a * n + b) = int ((jj # jjs) ! a) + 1 \<and>
                v2 ! (jcnnz + a * n + b) = int b + 1 \<and>
                a2 ! (jcnnz + a * n + b) = d ! ((jj # jjs) ! a) ! b"
    proof (cases a)
      case 0
      have "jcnnz + b < jcnnz + n \<or> jcnnz + n + length jjs * n \<le> jcnnz + b" using b by simp
      from o5 [OF this] i6 [OF b] 0 show ?thesis by simp
    next
      case (Suc a')
      then have a': "a' < length jjs" using a by simp
      have e: "jcnnz + a * n + b = jcnnz + n + a' * n + b" using Suc by simp
      have "(jj # jjs) ! a = jjs ! a'" using Suc by simp
      then show ?thesis unfolding e using o6 [OF a' b] by simp
    qed
  qed
  show ?case using res o2 out inn by blast
qed

lemma jfval_assign_ok:
  assumes "0 < length d" and "\<forall>i \<in> set is. i < length (d ! 0) \<and> i < length jfval"
  shows "\<exists>jfval'. jfval_assign is (Some d) jfval = Inr jfval' \<and> length jfval' = length jfval"
  using assms
proof (induction "is" arbitrary: jfval)
  case Nil
  then show ?case by simp
next
  case (Cons i "is")
  have "\<exists>jfval'. jfval_assign is (Some d) (jfval[i := d ! 0 ! i]) = Inr jfval' \<and>
          length jfval' = length (jfval[i := d ! 0 ! i])"
    using Cons.prems by (intro Cons.IH) simp_all
  then show ?case using Cons.prems by (simp add: read_local_def)
qed

text \<open>
  The assignment block on bound locals. In a gradient evaluation with \<open>m\<close> constraints and \<open>n\<close> variables, with buffers
  long enough and a dense Jacobian \<open>dgg\<close> of \<open>m\<close> rows of \<open>n\<close> entries, the assignment
  block of \<open>evalgjac\<close> returns the counter \<open>jcnnz = m * n\<close>, and entry \<open>k\<close> of the
  buffers holds the row \<open>k div n + 1\<close>, the column \<open>k mod n + 1\<close> and the value
  \<open>dgg[k div n, k mod n]\<close>: the constraints in order, and within a constraint the
  variables in order, both counted from 1.
\<close>

lemma evalgjac_assign_layout:
  assumes "m = length (constraints opt_problem)"
    and "n = length (variables opt_problem)"
    and "m * n \<le> length jcfun" and "m * n \<le> length jcvar" and "m * n \<le> length jcval"
    and "n \<le> length jfval"
    and "0 < length dff" and "n \<le> length (dff ! 0)"
    and "length dgg = m" and "\<forall>row \<in> set dgg. length row = n"
  shows "\<exists>jfval' jcfun' jcvar' jcval'.
           evalgjac_assign opt_problem (Some dff, Some dgg, Some fail) jfval jcfun jcvar jcval =
             Inr (jfval', jcfun', jcvar', jcval', m * n, fail) \<and>
           (\<forall>k < m * n.
              jcfun' ! k = int (k div n) + 1 \<and>
              jcvar' ! k = int (k mod n) + 1 \<and>
              jcval' ! k = dgg ! (k div n) ! (k mod n))"
proof -
  obtain jfval' where jf: "jfval_assign [0..<n] (Some dff) jfval = Inr jfval'"
    using jfval_assign_ok [of dff "[0..<n]" jfval] assms(6,7,8) by auto
  have rows: "\<forall>jj \<in> set [0..<m]. jj < length dgg \<and> n \<le> length (dgg ! jj)"
    using assms(9,10) by simp
  have "\<exists>jcfun' jcvar' jcval'.
           jac_outer [0..<m] [0..<n] (Some dgg) (jcfun, jcvar, jcval, 0) =
             Inr (jcfun', jcvar', jcval', 0 + length [0..<m] * n) \<and>
           length jcfun' = length jcfun \<and> length jcvar' = length jcvar \<and>
           length jcval' = length jcval \<and>
           (\<forall>k. k < 0 \<or> 0 + length [0..<m] * n \<le> k \<longrightarrow>
                jcfun' ! k = jcfun ! k \<and> jcvar' ! k = jcvar ! k \<and> jcval' ! k = jcval ! k) \<and>
           (\<forall>a < length [0..<m]. \<forall>b < n.
                jcfun' ! (0 + a * n + b) = int ([0..<m] ! a) + 1 \<and>
                jcvar' ! (0 + a * n + b) = int b + 1 \<and>
                jcval' ! (0 + a * n + b) = dgg ! ([0..<m] ! a) ! b)"
    using assms(3,4,5) rows by (intro jac_outer_spec) simp_all
  then obtain f' v' a' where o0:
    "jac_outer [0..<m] [0..<n] (Some dgg) (jcfun, jcvar, jcval, 0) = Inr (f', v', a', m * n) \<and>
     (\<forall>a < m. \<forall>b < n.
        f' ! (a * n + b) = int a + 1 \<and> v' ! (a * n + b) = int b + 1 \<and>
        a' ! (a * n + b) = dgg ! a ! b)"
    by auto
  have o1: "jac_outer [0..<m] [0..<n] (Some dgg) (jcfun, jcvar, jcval, 0) = Inr (f', v', a', m * n)"
    using o0 by blast
  have o2: "\<And>a b. a < m \<Longrightarrow> b < n \<Longrightarrow>
        f' ! (a * n + b) = int a + 1 \<and> v' ! (a * n + b) = int b + 1 \<and>
        a' ! (a * n + b) = dgg ! a ! b"
    using o0 by blast
  have ev: "evalgjac_assign opt_problem (Some dff, Some dgg, Some fail) jfval jcfun jcvar jcval =
              Inr (jfval', f', v', a', m * n, fail)"
    unfolding evalgjac_assign_def using jf o1 assms(1,2) by (simp add: read_local_def)
  have lay: "\<forall>k < m * n.
              f' ! k = int (k div n) + 1 \<and> v' ! k = int (k mod n) + 1 \<and>
              a' ! k = dgg ! (k div n) ! (k mod n)"
  proof (intro allI impI)
    fix k assume k: "k < m * n"
    then have n: "0 < n" by (cases n) simp_all
    have a: "k div n < m" using k n by (simp add: less_mult_imp_div_less)
    have b: "k mod n < n" using n by simp
    have "k div n * n + k mod n = k" by simp
    then show "f' ! k = int (k div n) + 1 \<and> v' ! k = int (k mod n) + 1 \<and>
              a' ! k = dgg ! (k div n) ! (k mod n)"
      using o2 [OF a b] by simp
  qed
  show ?thesis using ev lay by blast
qed

lemma evalgjac_assign_layout_example:
  "evalgjac_assign
      (opt_prob\<lparr>constraints := [\<lparr>c_name = ''g1'', c_type = ''i''\<rparr>,
                                \<lparr>c_name = ''g2'', c_type = ''e''\<rparr>]\<rparr>)
      (Some [[1, 2]], Some [[5, 7], [11, 13]], Some 0) [0, 0] [0, 0, 0, 0] [0, 0, 0, 0]
      [0, 0, 0, 0]
    = Inr ([1, 2], [1, 1, 2, 2], [1, 2, 1, 2], [5, 7, 11, 13], 4, 0)"
proof -
  let ?p = "opt_prob\<lparr>constraints := [\<lparr>c_name = ''g1'', c_type = ''i''\<rparr>,
                                \<lparr>c_name = ''g2'', c_type = ''e''\<rparr>]\<rparr>"
  have m: "(2::nat) = length (constraints ?p)" by simp
  have n: "(2::nat) = length (variables ?p)" by (simp add: opt_prob_def)
  have "\<exists>jfval' jcfun' jcvar' jcval'.
           evalgjac_assign ?p (Some [[1, 2]], Some [[5, 7], [11, 13]], Some 0)
              [0, 0] [0, 0, 0, 0] [0, 0, 0, 0] [0, 0, 0, 0] =
             Inr (jfval', jcfun', jcvar', jcval', 2 * 2, 0) \<and>
           (\<forall>k < 2 * 2.
              jcfun' ! k = int (k div 2) + 1 \<and>
              jcvar' ! k = int (k mod 2) + 1 \<and>
              jcval' ! k = [[5, 7], [11, 13]] ! (k div 2) ! (k mod 2))"
    by (rule evalgjac_assign_layout [OF m n]) simp_all
  then show ?thesis
    by (simp add: evalgjac_assign_def opt_prob_def read_local_def)
qed

text \<open>
  The callback as a whole, in a live evaluation: when the user model and the gradient
  engine return, with a Jacobian of \<open>M\<close> rows of \<open>N\<close> entries for the \<open>M\<close>
  constraints and \<open>N\<close> variables of the problem and buffers long enough, \<open>evalgjac\<close>
  returns the buffers in that layout with \<open>jcnnz = M * N\<close>.
\<close>

lemma evalgjac_store_bound:
  "\<exists>s3. evalgjac_store e (Some a, Some b, fl) s = (s3, Inr ())"
  by (simp add: evalgjac_store_def read_local_def Let_def)

lemma evalgjac_live_layout:
  assumes "\<not> h_start s"
    and "obj_fun p (Flat x) = Inr (ff, gg, fl)"
    and "getGrad e x (group_ids e) [ff] gg = Inr (dff, dgg)"
    and "M = length (constraints p)" and "N = length (variables p)"
    and "M * N \<le> length jcfun" and "M * N \<le> length jcvar" and "M * N \<le> length jcval"
    and "N \<le> length jfval"
    and "0 < length dff" and "N \<le> length (dff ! 0)"
    and "length dgg = M" and "\<forall>row \<in> set dgg. length row = N"
  shows "\<exists>s' jfval' jcfun' jcvar' jcval'.
           evalgjac e p n x jfval m jcfun jcvar jcval jcnnz flag s =
             (s', Inr (jfval', jcfun', jcvar', jcval', M * N, fl)) \<and>
           (\<forall>k < M * N.
              jcfun' ! k = int (k div N) + 1 \<and>
              jcvar' ! k = int (k mod N) + 1 \<and>
              jcval' ! k = dgg ! (k div N) ! (k mod N))"
proof -
  have rd: "evalgjac_read e p s = (s, Inr (None, None))"
    using assms(1) by (simp add: evalgjac_read_def)
  let ?s1 = "emit GetGrad (emit (UserCall (Flat x)) s)"
  have lv: "evalgjac_live e p x (None, None) s = (?s1, Inr (Some dff, Some dgg, Some fl))"
    using assms(1,2,3) by (simp add: evalgjac_live_def Let_def)
  obtain s3 where st: "evalgjac_store e (Some dff, Some dgg, Some fl) ?s1 = (s3, Inr ())"
    using evalgjac_store_bound by blast
  from evalgjac_assign_layout [OF assms(4-13), of fl]
  obtain jfval' jcfun' jcvar' jcval' where
    a: "evalgjac_assign p (Some dff, Some dgg, Some fl) jfval jcfun jcvar jcval =
          Inr (jfval', jcfun', jcvar', jcval', M * N, fl)"
    and l: "\<forall>k < M * N.
              jcfun' ! k = int (k div N) + 1 \<and>
              jcvar' ! k = int (k mod N) + 1 \<and>
              jcval' ! k = dgg ! (k div N) ! (k mod N)"
    by blast
  have "evalgjac e p n x jfval m jcfun jcvar jcval jcnnz flag s =
          (s3, Inr (jfval', jcfun', jcvar', jcval', M * N, fl))"
    using rd lv st a by (simp add: evalgjac_def)
  then show ?thesis using l by blast
qed

text \<open>
  A replayed evaluation is different. The replay branch of \<open>evalgjac\<close> binds \<open>dff\<close> and
  \<open>dgg\<close> and never \<open>fail\<close>, which the \<^verbatim>\<open>return\<close> of line 519 reads: when rank 0
  replays a gradient record, the callback raises and returns no buffer.
\<close>

lemma evalgjac_assign_unbound_fail:
  "\<exists>ex. evalgjac_assign p (dff, dgg, None) jfval jcfun jcvar jcval = Inl ex"
  by (auto simp: evalgjac_assign_def read_local_def split: sum.splits prod.splits)

lemma evalgjac_read_keeps_h_start:
  assumes "myrank e = 0" and "h_start s" and "hos_grad (hos_file s) \<noteq> []"
    and "evalgjac_read e p s = (s1, Inr loc)"
  shows "h_start s1"
proof -
  obtain r rs where q: "hos_grad (hos_file s) = r # rs"
    using assms(3) by (cases "hos_grad (hos_file s)") auto
  obtain go gc where r: "r = (go, gc)" by (cases r) auto
  show ?thesis
    using assms(1,2,4) q r
    by (auto simp: evalgjac_read_def hos_read_grad_def bcast_h_start_def Bcast_def emit_def
        read_local_def Let_def split: sum.splits if_splits)
qed

lemma evalgjac_replay_never_returns:
  assumes "myrank e = 0" and "h_start s" and "hos_grad (hos_file s) \<noteq> []"
  shows "\<exists>ex. snd (evalgjac e p n x jfval m jcfun jcvar jcval jcnnz flag s) = Inl ex"
proof -
  obtain s1 r1 where a: "evalgjac_read e p s = (s1, r1)"
    by (cases "evalgjac_read e p s") auto
  show ?thesis
  proof (cases r1)
    case (Inl ex)
    then show ?thesis using a by (simp add: evalgjac_def)
  next
    case (Inr loc)
    have h: "h_start s1"
      using evalgjac_read_keeps_h_start [OF assms] a Inr by simp
    obtain dff dgg where loc: "loc = (dff, dgg)" by (cases loc) auto
    have lv: "evalgjac_live e p x loc s1 = (s1, Inr (dff, dgg, None))"
      using h loc by (simp add: evalgjac_live_def)
    obtain s3 r3 where st: "evalgjac_store e (dff, dgg, None) s1 = (s3, r3)"
      by (cases "evalgjac_store e (dff, dgg, None) s1") auto
    obtain ex where "evalgjac_assign p (dff, dgg, None) jfval jcfun jcvar jcval = Inl ex"
      using evalgjac_assign_unbound_fail by blast
    then show ?thesis using a Inr lv st by (cases r3) (simp_all add: evalgjac_def)
  qed
qed


section \<open>Complex results: what the log and the backend receive\<close>

lemma assign_real_float: "assign_real v = Inr w \<Longrightarrow> \<not> isinstance_complex w"
  by (cases v) (auto simp: assign_real_def)








text \<open>
  Outside that: a numpy complex scalar that is not an instance of \<^verbatim>\<open>complex\<close> fails
  the test of lines 435 and 442 and is handed on as it is.
\<close>

lemma evalfc_complex64_passes:
  "snd (evalfc serial_env (con_prob\<lparr>obj_fun := complex64_model\<rparr>) 2 [1, 2] (Float 0) 1
          [Float 0] 0 fresh) =
     Inr (Complex64 (Complex 1 2), [Complex64 (Complex 3 4)], 0)"
  by (simp add: evalfc_def groups_view_def evalfc_read_def evalfc_values_def
      evalfc_store_def evalfc_assign_def assign_real_def bcast_h_start_def emit_def
      read_local_def Let_def
      serial_env_def con_prob_def opt_prob_def complex64_model_def fresh_def)

section \<open>The grouped view of the design vector\<close>







lemma group_ids_loop_bounds:
  assumes "map_of (group_ids_loop gs k acc) grp = Some (start, stop)"
  shows "map_of acc grp = Some (start, stop) \<or>
         (k \<le> start \<and> start \<le> stop \<and> stop \<le> k + sum_list (map (\<lambda>g. length (g_ids g)) gs))"
  using assms
proof (induction gs arbitrary: k acc)
  case Nil
  then show ?case by simp
next
  case (Cons g gs)
  let ?len = "length (g_ids g)"
  from Cons.prems have "map_of (group_ids_loop gs (k + ?len)
                          (AList.update (g_name g) (k, k + ?len) acc)) grp = Some (start, stop)"
    by (simp add: Let_def)
  from Cons.IH [OF this] show ?case
    by (auto simp: update_conv' split: if_splits)
qed

lemma setup_table_in_range:
  assumes "sum_list (map (\<lambda>g. length (g_ids g)) gs) \<le> length x"
  shows "\<forall>grp start stop. map_of (group_ids_loop gs 0 []) grp = Some (start, stop) \<and>
            int stop - int start = 1 \<longrightarrow> start < length x"
proof (intro allI impI)
  fix grp start stop
  assume h: "map_of (group_ids_loop gs 0 []) grp = Some (start, stop) \<and> int stop - int start = 1"
  then have "stop \<le> sum_list (map (\<lambda>g. length (g_ids g)) gs)"
    using group_ids_loop_bounds [of gs 0 "[]" grp start stop] by simp
  then show "start < length x" using h assms by linarith
qed



section \<open>Who writes to the history log\<close>

lemma writes_emit: "log_writes (emit ev s) = log_writes s @ (if is_LogWrite ev then [ev] else [])"
  by (simp add: log_writes_def emit_def)

lemma writes_upd [simp]:
  "log_writes (s\<lparr>h_start := b\<rparr>) = log_writes s" "log_writes (s\<lparr>hos_file := h\<rparr>) = log_writes s"
  by (simp_all add: log_writes_def)

lemma writes_bcast_h_start: "log_writes (bcast_h_start e s) = log_writes s"
  by (simp add: bcast_h_start_def writes_emit Let_def)

lemma writes_evalfc_read: "log_writes (fst (evalfc_read e s)) = log_writes s"
  by (auto simp: evalfc_read_def writes_emit split: prod.splits option.splits)

lemma writes_evalfc_values:
  "log_writes (fst (evalfc_values e p xn loc s)) = log_writes s"
  by (auto simp: evalfc_values_def writes_emit writes_bcast_h_start Let_def
      split: prod.splits sum.splits)

lemma writes_evalfc_store:
  "myrank e \<noteq> 0 \<or> \<not> sto_hst e \<Longrightarrow> log_writes (fst (evalfc_store e x loc s)) = log_writes s"
  by (auto simp: evalfc_store_def split: prod.splits)

lemma writes_evalfc:
  assumes "myrank e \<noteq> 0 \<or> \<not> sto_hst e"
  shows "log_writes (fst (evalfc e p n x f m g flag s)) = log_writes s"
proof (cases "groups_view (use_groups p) (group_ids e) x")
  case (Inl ex)
  then show ?thesis by (simp add: evalfc_def)
next
  case (Inr xn)
  obtain s1 ff gg fl where a: "evalfc_read e (emit Flush s) = (s1, ff, gg, fl)"
    by (cases "evalfc_read e (emit Flush s)") auto
  obtain s2 r2 where b: "evalfc_values e p xn (ff, gg, None) s1 = (s2, r2)"
    by (cases "evalfc_values e p xn (ff, gg, None) s1") auto
  have w1: "log_writes s1 = log_writes s"
    using writes_evalfc_read [of e "emit Flush s"] a by (simp add: writes_emit)
  have w2: "log_writes s2 = log_writes s1"
    using writes_evalfc_values [of e p xn "(ff, gg, None)" s1] b by simp
  show ?thesis
  proof (cases r2)
    case (Inl ex)
    then show ?thesis using Inr a b w1 w2 by (simp add: evalfc_def)
  next
    case r: (Inr loc)
    obtain s3 r3 where c: "evalfc_store e x loc s2 = (s3, r3)"
      by (cases "evalfc_store e x loc s2") auto
    have w3: "log_writes s3 = log_writes s2"
      using writes_evalfc_store [OF assms, of x loc s2] c by simp
    show ?thesis using Inr a b r c w1 w2 w3
      by (cases r3) (simp_all add: evalfc_def)
  qed
qed

lemma writes_evalgjac_read: "log_writes (fst (evalgjac_read e p s)) = log_writes s"
  by (auto simp: evalgjac_read_def writes_emit writes_bcast_h_start Let_def
      split: prod.splits sum.splits option.splits)

lemma writes_evalgjac_live: "log_writes (fst (evalgjac_live e p x loc s)) = log_writes s"
  by (auto simp: evalgjac_live_def writes_emit Let_def split: prod.splits sum.splits)

lemma writes_evalgjac_store:
  "myrank e \<noteq> 0 \<or> \<not> sto_hst e \<Longrightarrow> log_writes (fst (evalgjac_store e loc s)) = log_writes s"
  by (auto simp: evalgjac_store_def split: prod.splits)

lemma writes_evalgjac:
  assumes "myrank e \<noteq> 0 \<or> \<not> sto_hst e"
  shows "log_writes (fst (evalgjac e p n x jfval m jcfun jcvar jcval jcnnz flag s)) = log_writes s"
proof -
  obtain s1 r1 where a: "evalgjac_read e p s = (s1, r1)"
    by (cases "evalgjac_read e p s") auto
  have w1: "log_writes s1 = log_writes s" using writes_evalgjac_read [of e p s] a by simp
  show ?thesis
  proof (cases r1)
    case (Inl ex)
    then show ?thesis using a w1 by (simp add: evalgjac_def)
  next
    case r: (Inr loc)
    obtain s2 r2 where b: "evalgjac_live e p x loc s1 = (s2, r2)"
      by (cases "evalgjac_live e p x loc s1") auto
    have w2: "log_writes s2 = log_writes s1" using writes_evalgjac_live [of e p x loc s1] b by simp
    show ?thesis
    proof (cases r2)
      case (Inl ex)
      then show ?thesis using a r b w1 w2 by (simp add: evalgjac_def)
    next
      case r': (Inr loc')
      obtain s3 r3 where c: "evalgjac_store e loc' s2 = (s3, r3)"
        by (cases "evalgjac_store e loc' s2") auto
      have w3: "log_writes s3 = log_writes s2"
        using writes_evalgjac_store [OF assms, of loc' s2] c by simp
      show ?thesis using a r b r' c w1 w2 w3
        by (cases r3) (simp_all add: evalgjac_def)
    qed
  qed
qed

text \<open>
  C9. In both evaluation callbacks the history log is written only on rank 0 with
  recording enabled: on any other rank, and whenever recording is off, the writes among
  the events after the callback are the writes before it, whether the callback returns or
  raises.
\<close>

theorem log_written_only_by_rank0_recording:
  assumes "myrank e \<noteq> 0 \<or> \<not> sto_hst e"
  shows "log_writes (fst (evalfc e p n x f m g flag s)) = log_writes s \<and>
         log_writes (fst (evalgjac e p n x jfval m jcfun jcvar jcval jcnnz flag s)) = log_writes s"
  using writes_evalfc [OF assms] writes_evalgjac [OF assms] by simp

theorem log_written_only_by_rank0_recording_witness:
  "log_writes (fst (evalfc (serial_env\<lparr>myrank := 1, pll := True\<rparr>) con_prob 2 [1, 2]
      (Float 0) 1 [Float 0] 0 fresh)) = [] \<and>
   log_writes (fst (evalgjac (serial_env\<lparr>myrank := 1, pll := True\<rparr>) con_prob 2 [1, 2]
      [0, 0] 1 [0, 0] [0, 0] [0, 0] 0 0 fresh)) = []"
proof -
  have h: "myrank (serial_env\<lparr>myrank := 1, pll := True\<rparr>) \<noteq> 0
           \<or> \<not> sto_hst (serial_env\<lparr>myrank := 1, pll := True\<rparr>)"
    by simp
  have "log_writes fresh = []" by (simp add: log_writes_def fresh_def)
  then show ?thesis
    using log_written_only_by_rank0_recording [OF h, of con_prob 2 "[1, 2]" "Float 0" 1
        "[Float 0]" 0 fresh "[0, 0]" "[0, 0]" "[0, 0]" "[0, 0]" 0]
    by simp
qed

section \<open>Properties of the constructor\<close>

lemma upper_char_eq_iff:
  assumes u: "65 \<le> (of_char u :: nat)" "(of_char u :: nat) \<le> 90"
  shows "upper_char c = u \<longleftrightarrow> c = u \<or> (of_char c :: nat) = of_char u + 32"
proof (cases "97 \<le> (of_char c :: nat) \<and> (of_char c :: nat) \<le> 122")
  case True
  define n :: nat where "n = of_char c"
  have n: "97 \<le> n" "n \<le> 122" using True by (simp_all add: n_def)
  have up: "upper_char c = char_of (n - 32)"
    using True by (simp add: upper_char_def n_def)
  have small: "(n - 32) mod 256 = n - 32" using n by simp
  have rt: "(of_char (char_of (n - 32)) :: nat) = n - 32"
    using small by simp
  have neq: "c \<noteq> u" using n u by (auto simp: n_def)
  have "char_of (n - 32) = u \<longleftrightarrow> n = of_char u + 32"
  proof
    assume "char_of (n - 32) = u"
    then have "(of_char u :: nat) = n - 32" using rt by simp
    then show "n = of_char u + 32" using n by simp
  next
    assume "n = of_char u + 32"
    then have "n - 32 = (of_char u :: nat)" by simp
    then show "char_of (n - 32) = u" by simp
  qed
  then show ?thesis using up neq by (simp add: n_def)
next
  case False
  then have "upper_char c = c" unfolding upper_char_def by (simp only: if_False)
  moreover have "(of_char c :: nat) \<noteq> of_char u + 32" using False u by auto
  ultimately show ?thesis by simp
qed

lemma of_char_eq_numeral_iff:
  "(of_char c :: nat) = of_char d \<longleftrightarrow> c = d"
  by (rule of_char_eq_iff)

lemma upper_char_P: "upper_char c = CHR ''P'' \<longleftrightarrow> c = CHR ''P'' \<or> c = CHR ''p''"
proof -
  have "(of_char c :: nat) = of_char (CHR ''P'') + 32 \<longleftrightarrow> c = CHR ''p''"
    using of_char_eq_numeral_iff [of c "CHR ''p''"] by simp
  then show ?thesis
    using upper_char_eq_iff [of "CHR ''P''" c] by simp
qed

lemma upper_char_O: "upper_char c = CHR ''O'' \<longleftrightarrow> c = CHR ''O'' \<or> c = CHR ''o''"
proof -
  have "(of_char c :: nat) = of_char (CHR ''O'') + 32 \<longleftrightarrow> c = CHR ''o''"
    using of_char_eq_numeral_iff [of c "CHR ''o''"] by simp
  then show ?thesis
    using upper_char_eq_iff [of "CHR ''O''" c] by simp
qed

lemma upper_char_A: "upper_char c = CHR ''A'' \<longleftrightarrow> c = CHR ''A'' \<or> c = CHR ''a''"
proof -
  have "(of_char c :: nat) = of_char (CHR ''A'') + 32 \<longleftrightarrow> c = CHR ''a''"
    using of_char_eq_numeral_iff [of c "CHR ''a''"] by simp
  then show ?thesis
    using upper_char_eq_iff [of "CHR ''A''" c] by simp
qed

lemma str_upper_POA_iff:
  "str_upper s = ''POA'' \<longleftrightarrow>
     s \<in> {''POA'', ''POa'', ''PoA'', ''Poa'', ''pOA'', ''pOa'', ''poA'', ''poa''}"
proof -
  have "str_upper s = ''POA'' \<longleftrightarrow>
          (\<exists>x y z. s = [x, y, z] \<and> upper_char x = CHR ''P'' \<and> upper_char y = CHR ''O''
             \<and> upper_char z = CHR ''A'')"
    unfolding str_upper_def by (auto simp: map_eq_Cons_conv)
  also have "\<dots> \<longleftrightarrow>
     s \<in> {''POA'', ''POa'', ''PoA'', ''Poa'', ''pOA'', ''pOa'', ''poA'', ''poa''}"
    unfolding upper_char_P upper_char_O upper_char_A by auto
  finally show ?thesis .
qed

text \<open>
  C10. Constructing the optimizer succeeds exactly when \<open>pll_type\<close> is \<open>None\<close>, which
  sets \<open>poa\<close> to false, or one of the eight upper and lower case spellings of \<open>POA\<close>,
  which sets \<open>poa\<close> to true; for every other string the constructor raises a
  \<open>ValueError\<close> and returns no optimizer.
\<close>

theorem ALGENCAN_init_pll_type:
  "(ALGENCAN_init p = Inr False \<longleftrightarrow> p = None) \<and>
   (ALGENCAN_init p = Inr True \<longleftrightarrow>
      (\<exists>s. p = Some s \<and>
         s \<in> {''POA'', ''POa'', ''PoA'', ''Poa'', ''pOA'', ''pOa'', ''poA'', ''poa''})) \<and>
   ((\<exists>e. ALGENCAN_init p = Inl e) \<longleftrightarrow>
      (\<exists>s. p = Some s \<and>
         s \<notin> {''POA'', ''POa'', ''PoA'', ''Poa'', ''pOA'', ''pOa'', ''poA'', ''poa''})) \<and>
   (\<forall>e. ALGENCAN_init p = Inl e \<longrightarrow> exn_cls e = ValueError)"
proof (cases p)
  case None
  then show ?thesis by (simp add: ALGENCAN_init_def)
next
  case (Some s)
  show ?thesis
  proof (cases "str_upper s = ''POA''")
    case True
    then have "ALGENCAN_init p = Inr True" using Some by (simp add: ALGENCAN_init_def)
    then show ?thesis using Some True str_upper_POA_iff [of s] by simp
  next
    case False
    then have "ALGENCAN_init p = Inl (Exn ValueError
        (''pll_type must be either None or '' @ [CHR 0x27] @ ''POA'' @ [CHR 0x27]))"
      using Some by (simp add: ALGENCAN_init_def)
    then show ?thesis using Some False str_upper_POA_iff [of s] by simp
  qed
qed

theorem ALGENCAN_init_pll_type_witness:
  "ALGENCAN_init (Some ''Poa'') = Inr True \<and>
   (\<exists>e. ALGENCAN_init (Some ''pgc'') = Inl e \<and> exn_cls e = ValueError)"
  using ALGENCAN_init_pll_type [of "Some ''Poa''"] ALGENCAN_init_pll_type [of "Some ''pgc''"]
  by auto

end
